theory Spec2Isabelle
  imports Main "HOL-Library.Word"
begin

section \<open>Data model of the worker extension\<close>

text \<open>
  The development follows \<^verbatim>\<open>workerextension.go\<close> (the \<^verbatim>\<open>Worker\<close> interface, its
  default implementation and \<^verbatim>\<open>startWorker\<close>) and \<^verbatim>\<open>threadFramework.go\<close> (the older
  \<^verbatim>\<open>WorkerExtension\<close> interface and \<^verbatim>\<open>startExternalWorkerPipe\<close>).

  Go values that the code only passes along are kept opaque: an \<^verbatim>\<open>*http.Request\<close> is a
  string, an \<^verbatim>\<open>http.ResponseWriter\<close> is the number of the sink, a callback
  \<^verbatim>\<open>func(callbackReturn any)\<close> is the number of the closure (calling it is recorded,
  see \<open>calls\<close> below). A pointer or interface that may be \<^verbatim>\<open>nil\<close> is an \<open>option\<close>.
\<close>

type_synonym http_Request = string
type_synonym http_ResponseWriter = nat
type_synonym func = nat
type_synonym PreparedEnv = "(string \<times> string) list"

datatype any = AnyNil | AnyInt int | AnyString string

record WorkerRequest =
  Request :: "http_Request option"
  Response :: "http_ResponseWriter option"
  CallbackParameters :: any
  AfterFunc :: "func option"

subsection \<open>Go channels\<close>

text \<open>
  A channel made by \<^verbatim>\<open>make(chan T, cap)\<close> (\<^verbatim>\<open>make(chan T)\<close> has capacity 0): the buffer,
  the values of the goroutines blocked in a send and the number of goroutines blocked in
  a receive, each oldest first.
\<close>

record 'a chan =
  cap :: nat
  buf :: "'a list"
  sendq :: "'a list"
  recvq :: nat

definition make_chan :: "nat \<Rightarrow> 'a chan" where
  "make_chan n = \<lparr>cap = n, buf = [], sendq = [], recvq = 0\<rparr>"

text \<open>
  What a send \<^verbatim>\<open>ch <- v\<close> does at the moment it is issued: it hands \<open>v\<close> to the longest
  waiting receiver, or stores it in a free buffer slot, or blocks.
\<close>

datatype send_result = HandedToReceiver | Buffered | SendBlocks

definition chan_send :: "'a \<Rightarrow> 'a chan \<Rightarrow> send_result \<times> 'a chan" where
  "chan_send v ch =
     (if 0 < recvq ch then (HandedToReceiver, ch\<lparr>recvq := recvq ch - 1\<rparr>)
      else if length (buf ch) < cap ch then (Buffered, ch\<lparr>buf := buf ch @ [v]\<rparr>)
      else (SendBlocks, ch\<lparr>sendq := sendq ch @ [v]\<rparr>))"

text \<open>
  What a receive \<^verbatim>\<open><-ch\<close> does at the moment it is issued: it takes the oldest
  buffered value (the oldest blocked sender then moves its value into the buffer), or
  takes the value of the oldest blocked sender, or blocks.
\<close>

datatype 'a recv_result = Received 'a | RecvBlocks

definition chan_recv :: "'a chan \<Rightarrow> 'a recv_result \<times> 'a chan" where
  "chan_recv ch =
     (case buf ch of
        b # bs \<Rightarrow>
          (case sendq ch of
             [] \<Rightarrow> (Received b, ch\<lparr>buf := bs\<rparr>)
           | s # ss \<Rightarrow> (Received b, ch\<lparr>buf := bs @ [s], sendq := ss\<rparr>))
      | [] \<Rightarrow>
          (case sendq ch of
             s # ss \<Rightarrow> (Received s, ch\<lparr>sendq := ss\<rparr>)
           | [] \<Rightarrow> (RecvBlocks, ch\<lparr>recvq := recvq ch + 1\<rparr>)))"

text \<open>The values sent and not yet received, oldest first.\<close>

definition pending :: "'a chan \<Rightarrow> 'a list" where
  "pending ch = buf ch @ sendq ch"

text \<open>
  The states a channel can be in: receivers wait only when nothing is pending, and
  senders wait only when the buffer is full.
\<close>

definition chan_wf :: "'a chan \<Rightarrow> bool" where
  "chan_wf ch \<longleftrightarrow>
     (0 < recvq ch \<longrightarrow> buf ch = [] \<and> sendq ch = []) \<and>
     (sendq ch \<noteq> [] \<longrightarrow> cap ch \<le> length (buf ch))"

subsection \<open>The default worker\<close>

text \<open>
  \<^verbatim>\<open>defaultWorker\<close>: the two counters are \<^verbatim>\<open>atomic.Int32\<close>, whose \<^verbatim>\<open>Add\<close> wraps
  around; the channel carries \<^verbatim>\<open>*WorkerRequest\<close>, which may be \<^verbatim>\<open>nil\<close>.
\<close>

record defaultWorker =
  name :: string
  fileName :: string
  env :: PreparedEnv
  minThreads :: int
  requestChan :: "WorkerRequest option chan"
  activatedCount :: "32 word"
  drainCount :: "32 word"

definition NewWorker :: "string \<Rightarrow> string \<Rightarrow> int \<Rightarrow> PreparedEnv \<Rightarrow> defaultWorker" where
  "NewWorker n f m e =
     \<lparr>name = n, fileName = f, env = e, minThreads = m,
      requestChan = make_chan 0, activatedCount = 0, drainCount = 0\<rparr>"

definition Name :: "defaultWorker \<Rightarrow> string" where
  "Name w = name w"

definition FileName :: "defaultWorker \<Rightarrow> string" where
  "FileName w = fileName w"

definition Env :: "defaultWorker \<Rightarrow> PreparedEnv" where
  "Env w = env w"

definition GetMinThreads :: "defaultWorker \<Rightarrow> int" where
  "GetMinThreads w = minThreads w"

definition ThreadActivatedNotification :: "int \<Rightarrow> defaultWorker \<Rightarrow> defaultWorker" where
  "ThreadActivatedNotification threadId w = w\<lparr>activatedCount := activatedCount w + 1\<rparr>"

definition ThreadDrainNotification :: "int \<Rightarrow> defaultWorker \<Rightarrow> defaultWorker" where
  "ThreadDrainNotification threadId w = w\<lparr>drainCount := drainCount w + 1\<rparr>"

definition ThreadDeactivatedNotification :: "int \<Rightarrow> defaultWorker \<Rightarrow> defaultWorker" where
  "ThreadDeactivatedNotification threadId w =
     (let w1 = w\<lparr>drainCount := drainCount w + (- 1)\<rparr>
      in w1\<lparr>activatedCount := activatedCount w1 + (- 1)\<rparr>)"

definition ProvideRequest ::
  "defaultWorker \<Rightarrow> WorkerRequest option recv_result \<times> defaultWorker" where
  "ProvideRequest w =
     (case chan_recv (requestChan w) of (r, ch) \<Rightarrow> (r, w\<lparr>requestChan := ch\<rparr>))"

definition InjectRequest ::
  "WorkerRequest option \<Rightarrow> defaultWorker \<Rightarrow> send_result \<times> defaultWorker" where
  "InjectRequest r w =
     (case chan_send r (requestChan w) of (res, ch) \<Rightarrow> (res, w\<lparr>requestChan := ch\<rparr>))"

text \<open>
  The lifecycle calls the pool manager makes on a worker, and a worker driven through a
  sequence of them.
\<close>

datatype notification = Activated int | Drain int | Deactivated int

fun notify :: "notification \<Rightarrow> defaultWorker \<Rightarrow> defaultWorker" where
  "notify (Activated t) w = ThreadActivatedNotification t w"
| "notify (Drain t) w = ThreadDrainNotification t w"
| "notify (Deactivated t) w = ThreadDeactivatedNotification t w"

fun notify_all :: "notification list \<Rightarrow> defaultWorker \<Rightarrow> defaultWorker" where
  "notify_all [] w = w"
| "notify_all (n # ns) w = notify_all ns (notify n w)"

datatype notification_kind = KActivated | KDrain | KDeactivated

fun kind :: "notification \<Rightarrow> notification_kind" where
  "kind (Activated t) = KActivated"
| "kind (Drain t) = KDrain"
| "kind (Deactivated t) = KDeactivated"

text \<open>
  The calls made on a worker's queue, and the values that \<^verbatim>\<open>ProvideRequest\<close> calls have
  returned, in the order they returned: a receive that finds a value returns it at once,
  a send that finds a waiting receiver makes that receiver's call return.
\<close>

datatype queue_call = Inject "WorkerRequest option" | Provide

fun call_queue :: "queue_call \<Rightarrow> defaultWorker \<Rightarrow> WorkerRequest option list \<times> defaultWorker" where
  "call_queue (Inject r) w =
     (case InjectRequest r w of
        (HandedToReceiver, w') \<Rightarrow> ([r], w')
      | (_, w') \<Rightarrow> ([], w'))"
| "call_queue Provide w =
     (case ProvideRequest w of
        (Received r, w') \<Rightarrow> ([r], w')
      | (RecvBlocks, w') \<Rightarrow> ([], w'))"

fun queue_calls :: "queue_call list \<Rightarrow> defaultWorker \<Rightarrow> WorkerRequest option list \<times> defaultWorker" where
  "queue_calls [] w = ([], w)"
| "queue_calls (c # cs) w =
     (case call_queue c w of (out, w') \<Rightarrow>
        (case queue_calls cs w' of (outs, w'') \<Rightarrow> (out @ outs, w'')))"

fun injected :: "queue_call list \<Rightarrow> WorkerRequest option list" where
  "injected [] = []"
| "injected (Inject r # cs) = r # injected cs"
| "injected (Provide # cs) = injected cs"

subsection \<open>The registry\<close>

text \<open>
  \<^verbatim>\<open>extensionWorkers\<close> and \<^verbatim>\<open>externalWorkers\<close> are Go maps from the worker's name to the
  worker; both registration functions take the mutex and store under \<^verbatim>\<open>worker.Name()\<close>.
\<close>

type_synonym registry = "string \<rightharpoonup> defaultWorker"

definition RegisterWorker :: "defaultWorker \<Rightarrow> registry \<Rightarrow> registry" where
  "RegisterWorker worker extensionWorkers = extensionWorkers(Name worker \<mapsto> worker)"

definition RegisterExternalWorker :: "defaultWorker \<Rightarrow> registry \<Rightarrow> registry" where
  "RegisterExternalWorker worker externalWorkers = externalWorkers(Name worker \<mapsto> worker)"

subsection \<open>Request contexts\<close>

text \<open>
  The fields of \<^verbatim>\<open>frankenPHPContext\<close> that the pipe loops and the goroutines they start
  read or write. \<open>done_chan\<close> is the channel \<^verbatim>\<open>fc.done\<close>: \<open>True\<close> once it is closed, which is
  when a receive \<^verbatim>\<open><-fc.done\<close> stops blocking. \<open>worker\<close> is the \<^verbatim>\<open>*worker\<close>, by its name.
\<close>

type_synonym slog_Logger = nat

record frankenPHPContext =
  logger :: "slog_Logger option"
  worker :: "string option"
  responseWriter :: "http_ResponseWriter option"
  handlerParameters :: any
  handlerReturn :: any
  done_chan :: bool

datatype RequestOption = WithOriginalRequest http_Request | WithWorkerName string

text \<open>
  The functions and the package variable that the loops use and whose code is outside
  the files at hand; the loops take them as a parameter. \<open>'fr\<close> is the request returned
  by \<^verbatim>\<open>NewRequestWithContext\<close>; \<open>fromContext\<close> stands for \<^verbatim>\<open>fromContext(fr.Context())\<close>,
  with \<open>None\<close> for \<^verbatim>\<open>ok == false\<close>; an \<^verbatim>\<open>error\<close> is its message.
\<close>

record 'fr frankenphp =
  NewRequestWithContext :: "http_Request \<Rightarrow> RequestOption list \<Rightarrow> string + 'fr"
  fromContext :: "'fr \<Rightarrow> frankenPHPContext option"
  newFrankenPHPContext :: frankenPHPContext
  pkg_logger :: slog_Logger

subsection \<open>Logging\<close>

datatype slog_Level = LevelInfo | LevelWarn | LevelError

datatype slog_Attr = slog_String string string | slog_Int string int | slog_Any string string

type_synonym log_record = "slog_Level \<times> string \<times> slog_Attr list"

text \<open>The three records the loops write, with the worker's name and the thread's index.\<close>

definition queue_record :: "string \<Rightarrow> int \<Rightarrow> log_record" where
  "queue_record w_name threadIndex =
     (LevelInfo, ''queue the external worker request'',
      [slog_String ''worker'' w_name, slog_Int ''thread'' threadIndex])"

definition adapt_error_record :: "string \<Rightarrow> int \<Rightarrow> string \<Rightarrow> log_record" where
  "adapt_error_record w_name threadIndex err =
     (LevelError, ''error creating request for external worker'',
      [slog_String ''worker'' w_name, slog_Int ''thread'' threadIndex, slog_Any ''error'' err])"

definition nil_request_record :: "string \<Rightarrow> int \<Rightarrow> log_record" where
  "nil_request_record w_name threadIndex =
     (LevelWarn, ''external worker provided nil request'',
      [slog_String ''worker'' w_name, slog_Int ''thread'' threadIndex])"

subsection \<open>The state a pipe loop works on\<close>

text \<open>
  \<open>iterations\<close> counts the iterations of the \<^verbatim>\<open>for\<close> loop that have finished, so it is
  the number of the iteration in progress (from 0). \<open>log\<close> is what \<^verbatim>\<open>logger.LogAttrs\<close>
  has written. \<open>sent\<close> holds the contexts sent on \<^verbatim>\<open>w.requestChan\<close>, in the order of the
  sends; the receiver is the execution engine, which from then on works on the context
  through the pointer, so the list is also the store of these contexts and a context is
  referred to by its position (every context that \<^verbatim>\<open>newFrankenPHPContext\<close> or
  \<^verbatim>\<open>NewRequestWithContext\<close> provides is taken to be a new object). \<open>waiting\<close> holds the goroutines started by \<^verbatim>\<open>go func()\<close>
  that have not finished, under the number of the iteration that started them. The
  closure of such a goroutine captured the pointers \<open>fc\<close> and \<open>rq\<close>: \<open>w_fc\<close> is the
  position of the context, and \<open>w_rq\<close> is the \<^verbatim>\<open>WorkerRequest\<close> that \<open>rq\<close> points to, as it
  stands now; whoever provided the request holds the same pointer and may write it. \<open>calls\<close> records every call of an
  \<^verbatim>\<open>AfterFunc\<close>: the iteration whose request it belongs to, the function and its argument.
\<close>

record waiter =
  w_fc :: nat
  w_rq :: WorkerRequest

record pipe =
  iterations :: nat
  log :: "log_record list"
  sent :: "frankenPHPContext list"
  waiting :: "nat \<rightharpoonup> waiter"
  calls :: "(nat \<times> func \<times> any) list"

definition pipe_init :: pipe where
  "pipe_init = \<lparr>iterations = 0, log = [], sent = [], waiting = Map.empty, calls = []\<rparr>"

datatype panic = NilPointerDereference

subsection \<open>\<^verbatim>\<open>startWorker\<close> (workerextension.go)\<close>

text \<open>
  Lines 89 to 106, from \<^verbatim>\<open>fc.worker = w\<close> to the end of the loop body: the context is
  completed, the queueing is logged, the context is sent, and when \<^verbatim>\<open>rq.AfterFunc\<close> is
  not nil a goroutine is started to wait for \<^verbatim>\<open>fc.done\<close>.
\<close>

definition startWorker_queue ::
  "string \<Rightarrow> int \<Rightarrow> WorkerRequest \<Rightarrow> frankenPHPContext \<Rightarrow> pipe \<Rightarrow> pipe" where
  "startWorker_queue w_name threadIndex rq fc0 s =
     (let fc1 = fc0\<lparr>worker := Some w_name\<rparr>;
          fc2 = fc1\<lparr>responseWriter := Response rq\<rparr>;
          fc3 = fc2\<lparr>handlerParameters := CallbackParameters rq\<rparr>;
          s1 = s\<lparr>log := log s @ [queue_record w_name threadIndex]\<rparr>;
          s2 = s1\<lparr>sent := sent s1 @ [fc3]\<rparr>
      in if AfterFunc rq \<noteq> None
         then s2\<lparr>waiting := (waiting s2)(iterations s2 \<mapsto> \<lparr>w_fc = length (sent s1), w_rq = rq\<rparr>)\<rparr>
         else s2)"

text \<open>
  One iteration of the loop, on what \<^verbatim>\<open>extensionWorker.ProvideRequest()\<close> returned.
  \<^verbatim>\<open>rq.Request\<close> on a nil \<^verbatim>\<open>rq\<close> panics; \<^verbatim>\<open>continue\<close> ends the iteration.
\<close>

definition startWorker_iteration ::
  "'fr frankenphp \<Rightarrow> string \<Rightarrow> int \<Rightarrow> WorkerRequest option \<Rightarrow> pipe \<Rightarrow> panic + pipe" where
  "startWorker_iteration P w_name threadIndex provided s =
     (case provided of
        None \<Rightarrow> Inl NilPointerDereference
      | Some rq \<Rightarrow>
          (case Request rq of
             None \<Rightarrow>
               Inr (startWorker_queue w_name threadIndex rq
                      ((newFrankenPHPContext P)\<lparr>logger := Some (pkg_logger P)\<rparr>) s)
           | Some r \<Rightarrow>
               (case NewRequestWithContext P r [WithOriginalRequest r] of
                  Inl err \<Rightarrow>
                    Inr (s\<lparr>log := log s @ [adapt_error_record w_name threadIndex err]\<rparr>)
                | Inr fr \<Rightarrow>
                    (case fromContext P fr of
                       None \<Rightarrow> Inr s
                     | Some fc \<Rightarrow> Inr (startWorker_queue w_name threadIndex rq fc s)))))"

subsection \<open>\<^verbatim>\<open>startExternalWorkerPipe\<close> (threadFramework.go)\<close>

text \<open>Lines 83 to 98, the body of \<^verbatim>\<open>if fc, ok := fromContext(fr.Context()); ok\<close>.\<close>

definition startExternalWorkerPipe_queue ::
  "string \<Rightarrow> int \<Rightarrow> WorkerRequest \<Rightarrow> frankenPHPContext \<Rightarrow> pipe \<Rightarrow> pipe" where
  "startExternalWorkerPipe_queue w_name threadIndex rq fc0 s =
     (let fc1 = fc0\<lparr>responseWriter := Response rq\<rparr>;
          fc2 = fc1\<lparr>handlerParameters := CallbackParameters rq\<rparr>;
          s1 = s\<lparr>log := log s @ [queue_record w_name threadIndex]\<rparr>;
          s2 = s1\<lparr>sent := sent s1 @ [fc2]\<rparr>
      in if AfterFunc rq \<noteq> None
         then s2\<lparr>waiting := (waiting s2)(iterations s2 \<mapsto> \<lparr>w_fc = length (sent s1), w_rq = rq\<rparr>)\<rparr>
         else s2)"

definition provided_nil_request :: "WorkerRequest option \<Rightarrow> bool" where
  "provided_nil_request provided =
     (case provided of None \<Rightarrow> True | Some rq \<Rightarrow> Request rq = None)"

definition startExternalWorkerPipe_iteration ::
  "'fr frankenphp \<Rightarrow> string \<Rightarrow> int \<Rightarrow> WorkerRequest option \<Rightarrow> pipe \<Rightarrow> panic + pipe" where
  "startExternalWorkerPipe_iteration P w_name threadIndex provided s =
     (if provided_nil_request provided
      then Inr (s\<lparr>log := log s @ [nil_request_record w_name threadIndex]\<rparr>)
      else
        (let rq = the provided; r = the (Request rq)
         in case NewRequestWithContext P r [WithOriginalRequest r, WithWorkerName w_name] of
              Inl err \<Rightarrow>
                Inr (s\<lparr>log := log s @ [adapt_error_record w_name threadIndex err]\<rparr>)
            | Inr fr \<Rightarrow>
                (case fromContext P fr of
                   Some fc \<Rightarrow> Inr (startExternalWorkerPipe_queue w_name threadIndex rq fc s)
                 | None \<Rightarrow> Inr s)))"

subsection \<open>The engine, the waiting goroutines and the running loop\<close>

text \<open>
  Modelled from the spec: the execution engine, which is not in the sources. It works on
  a context it has received from the request channel; it populates \<open>handlerReturn\<close>
  before it signals completion, and it signals completion of a context once.
\<close>

definition engine_completes :: "nat \<Rightarrow> any \<Rightarrow> pipe \<Rightarrow> pipe" where
  "engine_completes k v s =
     (if k < length (sent s) \<and> \<not> done_chan (sent s ! k)
      then s\<lparr>sent := (sent s)[k := (sent s ! k)\<lparr>handlerReturn := v, done_chan := True\<rparr>]\<rparr>
      else s)"

text \<open>
  The goroutine started in iteration \<open>n\<close>, when the scheduler runs it:
  \<^verbatim>\<open><-fc.done\<close> keeps it blocked until the channel is closed; then it calls
  \<^verbatim>\<open>rq.AfterFunc(fc.handlerReturn)\<close> unless \<^verbatim>\<open>rq.AfterFunc\<close> is nil, and ends.
\<close>

definition waiter_runs :: "nat \<Rightarrow> pipe \<Rightarrow> pipe" where
  "waiter_runs n s =
     (case waiting s n of
        None \<Rightarrow> s
      | Some g \<Rightarrow>
          if w_fc g < length (sent s) \<and> done_chan (sent s ! w_fc g)
          then s\<lparr>waiting := (waiting s)(n := None),
                 calls := calls s @
                   (case AfterFunc (w_rq g) of
                      None \<Rightarrow> []
                    | Some f \<Rightarrow> [(n, f, handlerReturn (sent s ! w_fc g))])\<rparr>
          else s)"

text \<open>
  The provider of the request of iteration \<open>n\<close> assigns to its \<^verbatim>\<open>AfterFunc\<close> field,
  through the pointer it kept. After the iteration only the goroutine reads the
  request, and only this field.
\<close>

definition provider_writes :: "nat \<Rightarrow> func option \<Rightarrow> pipe \<Rightarrow> pipe" where
  "provider_writes n af s =
     (case waiting s n of
        None \<Rightarrow> s
      | Some g \<Rightarrow> s\<lparr>waiting := (waiting s)(n \<mapsto> g\<lparr>w_rq := (w_rq g)\<lparr>AfterFunc := af\<rparr>\<rparr>)\<rparr>)"

text \<open>
  What happens while a loop runs: \<^verbatim>\<open>ProvideRequest\<close> returns and the loop does one
  iteration, or the engine completes the context at a position of \<open>sent\<close>, or a waiting
  goroutine is run, or the provider of a request writes its \<^verbatim>\<open>AfterFunc\<close>. A panic ends
  everything.
\<close>

datatype event =
  Provides "WorkerRequest option" | Completes nat any | Wakes nat | Writes nat "func option"

fun step :: "(WorkerRequest option \<Rightarrow> pipe \<Rightarrow> panic + pipe) \<Rightarrow> event \<Rightarrow> pipe \<Rightarrow> panic + pipe" where
  "step body (Provides provided) s =
     (case body provided s of
        Inl p \<Rightarrow> Inl p
      | Inr s' \<Rightarrow> Inr (s'\<lparr>iterations := Suc (iterations s')\<rparr>))"
| "step body (Completes k v) s = Inr (engine_completes k v s)"
| "step body (Wakes n) s = Inr (waiter_runs n s)"
| "step body (Writes n af) s = Inr (provider_writes n af s)"

fun run :: "(WorkerRequest option \<Rightarrow> pipe \<Rightarrow> panic + pipe) \<Rightarrow> event list \<Rightarrow> pipe \<Rightarrow> panic + pipe" where
  "run body [] s = Inr s"
| "run body (e # es) s =
     (case step body e s of Inl p \<Rightarrow> Inl p | Inr s' \<Rightarrow> run body es s')"

text \<open>
  The two loops, each on the events of a run. When the events are used up the loop is
  blocked in \<^verbatim>\<open>ProvideRequest\<close>; the loop itself has no exit.
\<close>

definition startWorker ::
  "'fr frankenphp \<Rightarrow> string \<Rightarrow> int \<Rightarrow> event list \<Rightarrow> pipe \<Rightarrow> panic + pipe" where
  "startWorker P w_name threadIndex = run (startWorker_iteration P w_name threadIndex)"

definition startExternalWorkerPipe ::
  "'fr frankenphp \<Rightarrow> string \<Rightarrow> int \<Rightarrow> event list \<Rightarrow> pipe \<Rightarrow> panic + pipe" where
  "startExternalWorkerPipe P w_name threadIndex =
     run (startExternalWorkerPipe_iteration P w_name threadIndex)"

text \<open>The iterations whose request is written in a run.\<close>

fun writes :: "event list \<Rightarrow> nat list" where
  "writes [] = []"
| "writes (Writes n af # es) = n # writes es"
| "writes (e # es) = writes es"

text \<open>The calls of \<^verbatim>\<open>AfterFunc\<close> made for the request of iteration \<open>n\<close>.\<close>

definition calls_of :: "nat \<Rightarrow> pipe \<Rightarrow> (nat \<times> func \<times> any) list" where
  "calls_of n s = filter (\<lambda>c. fst c = n) (calls s)"

text \<open>Either loop, chosen by name, for what holds of both.\<close>

datatype pipe_loop = StartWorker | StartExternalWorkerPipe

fun pipe_iteration ::
  "pipe_loop \<Rightarrow> 'fr frankenphp \<Rightarrow> string \<Rightarrow> int \<Rightarrow> WorkerRequest option \<Rightarrow> pipe \<Rightarrow> panic + pipe" where
  "pipe_iteration StartWorker = startWorker_iteration"
| "pipe_iteration StartExternalWorkerPipe = startExternalWorkerPipe_iteration"

subsection \<open>Invariants of a running loop\<close>

text \<open>
  What an iteration of either loop can do to the state: nothing but logging, or send one
  context and, when the request has an \<^verbatim>\<open>AfterFunc\<close>, start the goroutine for it.
\<close>

definition iteration_effect :: "WorkerRequest option \<Rightarrow> pipe \<Rightarrow> pipe \<Rightarrow> bool" where
  "iteration_effect provided s s' \<longleftrightarrow>
     iterations s' = iterations s \<and> calls s' = calls s \<and>
     (sent s' = sent s \<and> waiting s' = waiting s \<or>
      (\<exists>fc rq. provided = Some rq \<and> sent s' = sent s @ [fc] \<and>
         waiting s' =
           (if AfterFunc rq = None then waiting s
            else (waiting s)(iterations s \<mapsto> \<lparr>w_fc = length (sent s), w_rq = rq\<rparr>))))"

definition pipe_body :: "(WorkerRequest option \<Rightarrow> pipe \<Rightarrow> panic + pipe) \<Rightarrow> bool" where
  "pipe_body body \<longleftrightarrow>
     (\<forall>provided s s'. body provided s = Inr s' \<longrightarrow> iteration_effect provided s s')"

text \<open>Goroutines and recorded calls belong to iterations that have been started.\<close>

definition reach_inv :: "pipe \<Rightarrow> bool" where
  "reach_inv s \<longleftrightarrow>
     (\<forall>m g. waiting s m = Some g \<longrightarrow> m < iterations s \<and> w_fc g < length (sent s)) \<and>
     (\<forall>c \<in> set (calls s). fst c < iterations s)"

text \<open>
  The request \<open>rq\<close> of iteration \<open>n\<close>, sent at position \<open>k\<close>, with \<^verbatim>\<open>AfterFunc\<close> \<open>f\<close>:
  its goroutine is still waiting and \<open>f\<close> has not been called, or the goroutine has
  ended, the channel is closed and \<open>f\<close> has been called once, with \<open>handlerReturn\<close>.
\<close>

definition tracked :: "nat \<Rightarrow> nat \<Rightarrow> WorkerRequest \<Rightarrow> func \<Rightarrow> pipe \<Rightarrow> bool" where
  "tracked n k rq f s \<longleftrightarrow>
     n < iterations s \<and> k < length (sent s) \<and>
     (waiting s n = Some \<lparr>w_fc = k, w_rq = rq\<rparr> \<and> calls_of n s = [] \<or>
      waiting s n = None \<and> calls_of n s = [(n, f, handlerReturn (sent s ! k))] \<and>
        done_chan (sent s ! k))"

text \<open>
  The same when the request may have been written: the goroutine of iteration \<open>n\<close>
  still waits for the context at position \<open>k\<close> and no call is recorded, or it has
  ended, the channel is closed and at most one call is recorded, with \<open>handlerReturn\<close>.
\<close>

definition tracked_any :: "nat \<Rightarrow> nat \<Rightarrow> pipe \<Rightarrow> bool" where
  "tracked_any n k s \<longleftrightarrow>
     n < iterations s \<and> k < length (sent s) \<and>
     ((\<exists>g. waiting s n = Some g \<and> w_fc g = k) \<and> calls_of n s = [] \<or>
      waiting s n = None \<and> done_chan (sent s ! k) \<and>
        (calls_of n s = [] \<or> (\<exists>f. calls_of n s = [(n, f, handlerReturn (sent s ! k))])))"

text \<open>Iteration \<open>n\<close> is over, no goroutine of it is waiting and no call is recorded for it.\<close>

definition untracked :: "nat \<Rightarrow> pipe \<Rightarrow> bool" where
  "untracked n s \<longleftrightarrow> n < iterations s \<and> waiting s n = None \<and> calls_of n s = []"

text \<open>
  An instance of the parameters, to run the loops on concrete requests: the request
  \<open>''%''\<close> cannot be adapted, the request \<open>''no-context''\<close> is adapted to a request that
  carries no context, every other request gets a fresh context.
\<close>

definition fresh_context :: frankenPHPContext where
  "fresh_context =
     \<lparr>logger = None, worker = None, responseWriter = None, handlerParameters = AnyNil,
      handlerReturn = AnyNil, done_chan = False\<rparr>"

definition sample_NewRequestWithContext ::
  "http_Request \<Rightarrow> RequestOption list \<Rightarrow> string + http_Request" where
  "sample_NewRequestWithContext r opts = (if r = ''%'' then Inl ''invalid URL escape'' else Inr r)"

definition sample_fromContext :: "http_Request \<Rightarrow> frankenPHPContext option" where
  "sample_fromContext fr = (if fr = ''no-context'' then None else Some fresh_context)"

definition sample_frankenphp :: "http_Request frankenphp" where
  "sample_frankenphp =
     \<lparr>NewRequestWithContext = sample_NewRequestWithContext,
      fromContext = sample_fromContext,
      newFrankenPHPContext = fresh_context,
      pkg_logger = 0\<rparr>"

text \<open>
  A request as the package's test injects it: a payload, a response writer and an
  \<^verbatim>\<open>AfterFunc\<close>.
\<close>

definition sample_request :: WorkerRequest where
  "sample_request =
     \<lparr>Request = Some ''https://example.com/test/?foo=bar'', Response = Some 1,
      CallbackParameters = AnyNil, AfterFunc = Some 7\<rparr>"

section \<open>Auxiliary facts\<close>

lemma sint_dec: "sint (x :: 32 word) \<noteq> - (2 ^ 31) \<Longrightarrow> sint (x + (- 1)) = sint x - 1"
proof -
  assume a: "sint x \<noteq> - (2 ^ 31)"
  have lo: "- (2 ^ 31) \<le> sint x" using sint_ge[of x] by simp
  have hi: "sint x < 2 ^ 31" using sint_lt[of x] by simp
  have "sint (x - 1) = signed_take_bit 31 (sint x - 1)"
    by (simp add: sint_word_ariths)
  also have "\<dots> = sint x - 1"
    using a lo hi by (intro signed_take_bit_int_eq_self) auto
  finally show ?thesis by simp
qed

lemma chan_send_wf: "chan_wf ch \<Longrightarrow> chan_wf (snd (chan_send v ch))"
  by (auto simp: chan_wf_def chan_send_def)

lemma chan_recv_wf: "chan_wf ch \<Longrightarrow> chan_wf (snd (chan_recv ch))"
  by (auto simp: chan_wf_def chan_recv_def split: list.splits)

lemma chan_send_fifo: "chan_wf ch \<Longrightarrow>
   (if fst (chan_send v ch) = HandedToReceiver then [v] else []) @ pending (snd (chan_send v ch)) = pending ch @ [v]"
  by (auto simp: chan_wf_def chan_send_def pending_def split: if_splits)

lemma chan_recv_fifo: 
   "(case fst (chan_recv ch) of Received r \<Rightarrow> [r] | RecvBlocks \<Rightarrow> []) @ pending (snd (chan_recv ch)) = pending ch"
  by (auto simp: chan_recv_def pending_def split: list.splits)

lemma call_queue_Inject:
  "call_queue (Inject r) w =
     (if fst (chan_send r (requestChan w)) = HandedToReceiver then [r] else [],
      w\<lparr>requestChan := snd (chan_send r (requestChan w))\<rparr>)"
  by (cases "chan_send r (requestChan w)") (auto simp: InjectRequest_def split: send_result.splits)

lemma call_queue_Provide:
  "call_queue Provide w =
     (case fst (chan_recv (requestChan w)) of Received r \<Rightarrow> [r] | RecvBlocks \<Rightarrow> [],
      w\<lparr>requestChan := snd (chan_recv (requestChan w))\<rparr>)"
  by (cases "chan_recv (requestChan w)") (auto simp: ProvideRequest_def split: recv_result.splits)

lemma call_queue_wf: "chan_wf (requestChan w) \<Longrightarrow> chan_wf (requestChan (snd (call_queue c w)))"
  by (cases c) (simp_all del: call_queue.simps add: call_queue_Inject call_queue_Provide chan_send_wf chan_recv_wf)

lemma call_queue_fifo: "chan_wf (requestChan w) \<Longrightarrow>
   fst (call_queue c w) @ pending (requestChan (snd (call_queue c w))) = pending (requestChan w) @ injected [c]"
  by (cases c) (simp_all del: call_queue.simps add: call_queue_Inject call_queue_Provide chan_send_fifo chan_recv_fifo)

lemma injected_append: "injected (cs @ ds) = injected cs @ injected ds"
  by (induction cs rule: injected.induct) auto

lemma queue_calls_wf: "chan_wf (requestChan w) \<Longrightarrow> chan_wf (requestChan (snd (queue_calls cs w)))"
proof (induction cs arbitrary: w)
  case Nil then show ?case by simp
next
  case (Cons c cs)
  have "chan_wf (requestChan (snd (call_queue c w)))" using Cons.prems by (rule call_queue_wf)
  from Cons.IH[OF this] show ?case by (simp add: case_prod_beta)
qed

lemma queue_calls_fifo: "chan_wf (requestChan w) \<Longrightarrow>
   fst (queue_calls cs w) @ pending (requestChan (snd (queue_calls cs w))) = pending (requestChan w) @ injected cs"
proof (induction cs arbitrary: w)
  case Nil then show ?case by simp
next
  case (Cons c cs)
  let ?w1 = "snd (call_queue c w)"
  have wf1: "chan_wf (requestChan ?w1)" using Cons.prems by (rule call_queue_wf)
  have a: "fst (queue_calls cs ?w1) @ pending (requestChan (snd (queue_calls cs ?w1))) = pending (requestChan ?w1) @ injected cs"
    using Cons.IH[OF wf1] .
  have b: "fst (call_queue c w) @ pending (requestChan ?w1) = pending (requestChan w) @ injected [c]"
    using call_queue_fifo[OF Cons.prems] .
  have c: "injected (c # cs) = injected [c] @ injected cs" using injected_append[of "[c]" cs] by simp
  have "fst (queue_calls (c # cs) w) = fst (call_queue c w) @ fst (queue_calls cs ?w1)"
    by (simp add: case_prod_beta)
  moreover have "snd (queue_calls (c # cs) w) = snd (queue_calls cs ?w1)"
    by (simp add: case_prod_beta)
  ultimately show ?case using a b c by (metis append.assoc)
qed

lemma chan_recv_pending:
  "pending ch = x # xs \<Longrightarrow>
   fst (chan_recv ch) = Received x \<and> pending (snd (chan_recv ch)) = xs"
  by (auto simp: chan_recv_def pending_def split: list.splits)

lemma provide_drains:
  "pending (requestChan w) = xs \<Longrightarrow>
   fst (queue_calls (replicate (length xs) Provide) w) = xs"
proof (induction xs arbitrary: w)
  case Nil
  then show ?case by simp
next
  case (Cons x xs)
  let ?w1 = "w\<lparr>requestChan := snd (chan_recv (requestChan w))\<rparr>"
  from chan_recv_pending[OF Cons.prems]
  have r: "fst (chan_recv (requestChan w)) = Received x"
    and p: "pending (requestChan ?w1) = xs" by simp_all
  have c: "call_queue Provide w = ([x], ?w1)"
    using r by (simp del: call_queue.simps add: call_queue_Provide)
  show ?case
    using c Cons.IH[OF p] by (simp del: call_queue.simps add: case_prod_beta)
qed

lemma inject_without_receiver:
  assumes "chan_wf (requestChan w)" "recvq (requestChan w) = 0"
  shows "fst (call_queue (Inject r) w) = []"
    and "pending (requestChan (snd (call_queue (Inject r) w))) = pending (requestChan w) @ [r]"
    and "recvq (requestChan (snd (call_queue (Inject r) w))) = 0"
    and "chan_wf (requestChan (snd (call_queue (Inject r) w)))"
  using assms
  by (auto simp del: call_queue.simps simp: call_queue_Inject chan_send_def pending_def chan_wf_def)

lemma inject_two_then_provide:
  assumes wf: "chan_wf (requestChan w)" and r0: "recvq (requestChan w) = 0"
  shows "fst (queue_calls (Inject A # Inject B #
            replicate (length (pending (requestChan w)) + 2) Provide) w)
         = pending (requestChan w) @ [A, B]"
proof -
  let ?w1 = "snd (call_queue (Inject A) w)"
  let ?w2 = "snd (call_queue (Inject B) ?w1)"
  note a = inject_without_receiver[OF wf r0, of A]
  note b = inject_without_receiver[OF a(4) a(3), of B]
  have p: "pending (requestChan ?w2) = pending (requestChan w) @ [A, B]"
    using a(2) b(2) by simp
  have "fst (queue_calls (replicate (length (pending (requestChan w) @ [A, B])) Provide) ?w2)
      = pending (requestChan w) @ [A, B]"
    using provide_drains[OF p] .
  then show ?thesis
    using a(1) b(1) by (simp del: call_queue.simps add: case_prod_beta)
qed

lemma inject_two_one_receiver:
  assumes wf: "chan_wf (requestChan w)" and r1: "recvq (requestChan w) = 1"
  shows "fst (queue_calls [Inject A, Inject B, Provide] w) = [A, B]"
  using assms
  by (auto simp: InjectRequest_def ProvideRequest_def chan_send_def chan_recv_def chan_wf_def
      split: list.splits)

lemma inject_two_two_receivers:
  assumes wf: "chan_wf (requestChan w)" and r2: "2 \<le> recvq (requestChan w)"
  shows "fst (queue_calls [Inject A, Inject B] w) = [A, B]"
  using assms
  by (auto simp: InjectRequest_def chan_send_def chan_wf_def)

lemma startWorker_queue_fields:
  "sent (startWorker_queue w t rq fc s) =
     sent s @ [fc\<lparr>worker := Some w, responseWriter := Response rq,
                 handlerParameters := CallbackParameters rq\<rparr>]"
  "log (startWorker_queue w t rq fc s) =
     log s @ [queue_record w t]"
  "iterations (startWorker_queue w t rq fc s) = iterations s"
  "calls (startWorker_queue w t rq fc s) = calls s"
  "waiting (startWorker_queue w t rq fc s) =
     (if AfterFunc rq = None then waiting s
      else (waiting s)(iterations s \<mapsto> \<lparr>w_fc = length (sent s), w_rq = rq\<rparr>))"
  by (simp_all add: startWorker_queue_def Let_def)

lemma startExternalWorkerPipe_queue_fields:
  "sent (startExternalWorkerPipe_queue w t rq fc s) =
     sent s @ [fc\<lparr>responseWriter := Response rq,
                 handlerParameters := CallbackParameters rq\<rparr>]"
  "log (startExternalWorkerPipe_queue w t rq fc s) =
     log s @ [queue_record w t]"
  "iterations (startExternalWorkerPipe_queue w t rq fc s) = iterations s"
  "calls (startExternalWorkerPipe_queue w t rq fc s) = calls s"
  "waiting (startExternalWorkerPipe_queue w t rq fc s) =
     (if AfterFunc rq = None then waiting s
      else (waiting s)(iterations s \<mapsto> \<lparr>w_fc = length (sent s), w_rq = rq\<rparr>))"
  by (simp_all add: startExternalWorkerPipe_queue_def Let_def)

lemma iteration_effect_log: "iteration_effect provided s (s\<lparr>log := l\<rparr>)"
  by (simp add: iteration_effect_def)

lemma iteration_effect_same: "iteration_effect provided s s"
  by (simp add: iteration_effect_def)

lemma iteration_effect_startWorker_queue:
  "iteration_effect (Some rq) s (startWorker_queue w t rq fc s)"
  unfolding iteration_effect_def
  by (intro conjI disjI2 exI[of _ rq]
        exI[of _ "fc\<lparr>worker := Some w, responseWriter := Response rq,
                      handlerParameters := CallbackParameters rq\<rparr>"])
     (simp_all add: startWorker_queue_fields)

lemma iteration_effect_startExternalWorkerPipe_queue:
  "iteration_effect (Some rq) s (startExternalWorkerPipe_queue w t rq fc s)"
  unfolding iteration_effect_def
  by (intro conjI disjI2 exI[of _ rq]
        exI[of _ "fc\<lparr>responseWriter := Response rq,
                      handlerParameters := CallbackParameters rq\<rparr>"])
     (simp_all add: startExternalWorkerPipe_queue_fields)

lemma pipe_body_startWorker: "pipe_body (startWorker_iteration P w t)"
  unfolding pipe_body_def startWorker_iteration_def
  by (auto simp: iteration_effect_log iteration_effect_same iteration_effect_startWorker_queue
      split: option.splits sum.splits)

lemma pipe_body_startExternalWorkerPipe: "pipe_body (startExternalWorkerPipe_iteration P w t)"
  unfolding pipe_body_def startExternalWorkerPipe_iteration_def provided_nil_request_def
  by (auto simp: iteration_effect_log iteration_effect_same
      iteration_effect_startExternalWorkerPipe_queue Let_def
      split: option.splits sum.splits if_splits)

lemma pipe_body_pipe_iteration: "pipe_body (pipe_iteration L P w t)"
  by (cases L) (simp_all add: pipe_body_startWorker pipe_body_startExternalWorkerPipe)


lemma reach_inv_init: "reach_inv pipe_init"
  by (simp add: reach_inv_def pipe_init_def)

lemma reach_inv_engine: "reach_inv s \<Longrightarrow> reach_inv (engine_completes k v s)"
  by (simp add: reach_inv_def engine_completes_def)

lemma reach_inv_waiter: "reach_inv s \<Longrightarrow> reach_inv (waiter_runs n s)"
  by (auto simp: reach_inv_def waiter_runs_def split: option.splits if_splits)

lemma reach_inv_writes: "reach_inv s \<Longrightarrow> reach_inv (provider_writes n af s)"
  by (auto simp: reach_inv_def provider_writes_def split: option.splits if_splits)

lemma reach_inv_body:
  assumes "pipe_body body" "reach_inv s" "body provided s = Inr s'"
  shows "reach_inv (s'\<lparr>iterations := Suc (iterations s')\<rparr>)"
proof -
  from assms(1,3) have it: "iterations s' = iterations s" and cl: "calls s' = calls s"
    and alt: "sent s' = sent s \<and> waiting s' = waiting s \<or>
         (\<exists>fc rq. provided = Some rq \<and> sent s' = sent s @ [fc] \<and>
            waiting s' =
              (if AfterFunc rq = None then waiting s
               else (waiting s)(iterations s \<mapsto> \<lparr>w_fc = length (sent s), w_rq = rq\<rparr>)))"
    unfolding pipe_body_def iteration_effect_def by blast+
  from alt show ?thesis
    using assms(2) it cl unfolding reach_inv_def
    by (elim disjE conjE exE) (auto simp: less_Suc_eq split: if_splits)
qed

lemma reach_inv_step:
  "pipe_body body \<Longrightarrow> reach_inv s \<Longrightarrow> step body e s = Inr s' \<Longrightarrow> reach_inv s'"
  by (cases e)
     (auto simp: reach_inv_engine reach_inv_waiter reach_inv_writes reach_inv_body
        split: sum.splits)

lemma reach_inv_run:
  "pipe_body body \<Longrightarrow> reach_inv s \<Longrightarrow> run body es s = Inr s' \<Longrightarrow> reach_inv s'"
proof (induction es arbitrary: s)
  case Nil
  then show ?case by simp
next
  case (Cons e es)
  from Cons.prems(3) obtain s1 where s1: "step body e s = Inr s1" and r: "run body es s1 = Inr s'"
    by (auto split: sum.splits)
  from reach_inv_step[OF Cons.prems(1,2) s1] Cons.IH[OF Cons.prems(1) _ r] show ?case by blast
qed

lemma calls_of_simps:
  "calls_of n (s\<lparr>iterations := i\<rparr>) = calls_of n s"
  "calls_of n (s\<lparr>sent := x\<rparr>) = calls_of n s"
  "calls_of n (s\<lparr>log := l\<rparr>) = calls_of n s"
  "calls_of n (s\<lparr>waiting := wt\<rparr>) = calls_of n s"
  "calls_of n (s\<lparr>calls := calls s @ cs\<rparr>) = calls_of n s @ filter (\<lambda>c. fst c = n) cs"
  by (simp_all add: calls_of_def)

lemma tracked_engine:
  "tracked n k rq f s \<Longrightarrow> tracked n k rq f (engine_completes j v s)"
  by (auto simp: tracked_def engine_completes_def calls_of_simps nth_list_update)

lemma tracked_waiter:
  "AfterFunc rq = Some f \<Longrightarrow> tracked n k rq f s \<Longrightarrow> tracked n k rq f (waiter_runs m s)"
  by (auto simp: tracked_def waiter_runs_def calls_of_def split: option.splits)

lemma tracked_body:
  assumes "pipe_body body" "tracked n k rq f s" "body provided s = Inr s'"
  shows "tracked n k rq f (s'\<lparr>iterations := Suc (iterations s')\<rparr>)"
proof -
  from assms(1,3) have it: "iterations s' = iterations s" and cl: "calls s' = calls s"
    and alt: "sent s' = sent s \<and> waiting s' = waiting s \<or>
         (\<exists>fc rq. provided = Some rq \<and> sent s' = sent s @ [fc] \<and>
            waiting s' =
              (if AfterFunc rq = None then waiting s
               else (waiting s)(iterations s \<mapsto> \<lparr>w_fc = length (sent s), w_rq = rq\<rparr>)))"
    unfolding pipe_body_def iteration_effect_def by blast+
  have co: "calls_of n s' = calls_of n s" using cl by (simp add: calls_of_def)
  from alt show ?thesis
    using assms(2) it co unfolding tracked_def
    by (elim disjE conjE exE) (auto simp: calls_of_simps nth_append)
qed

lemma tracked_writes:
  "m \<noteq> n \<Longrightarrow> tracked n k rq f s \<Longrightarrow> tracked n k rq f (provider_writes m af s)"
  by (auto simp: tracked_def provider_writes_def calls_of_def split: option.splits)

lemma tracked_step:
  "pipe_body body \<Longrightarrow> AfterFunc rq = Some f \<Longrightarrow> tracked n k rq f s \<Longrightarrow>
   n \<notin> set (writes [e]) \<Longrightarrow> step body e s = Inr s' \<Longrightarrow> tracked n k rq f s'"
  by (cases e)
     (auto simp: tracked_engine tracked_waiter tracked_writes tracked_body split: sum.splits)

lemma writes_Cons: "set (writes (e # es)) = set (writes [e]) \<union> set (writes es)"
  by (cases e) simp_all

lemma tracked_run:
  "pipe_body body \<Longrightarrow> AfterFunc rq = Some f \<Longrightarrow> tracked n k rq f s \<Longrightarrow>
   n \<notin> set (writes es) \<Longrightarrow> run body es s = Inr s' \<Longrightarrow> tracked n k rq f s'"
proof (induction es arbitrary: s)
  case Nil
  then show ?case by simp
next
  case (Cons e es)
  from Cons.prems(5) obtain s1 where s1: "step body e s = Inr s1" and r: "run body es s1 = Inr s'"
    by (auto split: sum.splits)
  from Cons.prems(4) have w1: "n \<notin> set (writes [e])" and w2: "n \<notin> set (writes es)"
    using writes_Cons[of e es] by auto
  from tracked_step[OF Cons.prems(1,2,3) w1 s1] Cons.IH[OF Cons.prems(1,2) _ w2 r]
  show ?case by blast
qed

lemma tracked_any_engine: "tracked_any n k s \<Longrightarrow> tracked_any n k (engine_completes j v s)"
  by (auto simp: tracked_any_def engine_completes_def calls_of_simps nth_list_update)

lemma tracked_any_waiter: "tracked_any n k s \<Longrightarrow> tracked_any n k (waiter_runs m s)"
  by (auto simp: tracked_any_def waiter_runs_def calls_of_def split: option.splits)

lemma tracked_any_writes: "tracked_any n k s \<Longrightarrow> tracked_any n k (provider_writes m af s)"
  by (auto simp: tracked_any_def provider_writes_def calls_of_def split: option.splits)

lemma tracked_any_body:
  assumes "pipe_body body" "tracked_any n k s" "body provided s = Inr s'"
  shows "tracked_any n k (s'\<lparr>iterations := Suc (iterations s')\<rparr>)"
proof -
  from assms(1,3) have it: "iterations s' = iterations s" and cl: "calls s' = calls s"
    and alt: "sent s' = sent s \<and> waiting s' = waiting s \<or>
         (\<exists>fc rq. provided = Some rq \<and> sent s' = sent s @ [fc] \<and>
            waiting s' =
              (if AfterFunc rq = None then waiting s
               else (waiting s)(iterations s \<mapsto> \<lparr>w_fc = length (sent s), w_rq = rq\<rparr>)))"
    unfolding pipe_body_def iteration_effect_def by blast+
  have co: "calls_of n s' = calls_of n s" using cl by (simp add: calls_of_def)
  from alt show ?thesis
    using assms(2) it co unfolding tracked_any_def
    by (elim disjE conjE exE) (auto simp: calls_of_simps nth_append)
qed

lemma tracked_any_step:
  "pipe_body body \<Longrightarrow> tracked_any n k s \<Longrightarrow> step body e s = Inr s' \<Longrightarrow> tracked_any n k s'"
  by (cases e)
     (auto simp: tracked_any_engine tracked_any_waiter tracked_any_writes tracked_any_body
        split: sum.splits)

lemma tracked_any_run:
  "pipe_body body \<Longrightarrow> tracked_any n k s \<Longrightarrow> run body es s = Inr s' \<Longrightarrow> tracked_any n k s'"
proof (induction es arbitrary: s)
  case Nil
  then show ?case by simp
next
  case (Cons e es)
  from Cons.prems(3) obtain s1 where s1: "step body e s = Inr s1" and r: "run body es s1 = Inr s'"
    by (auto split: sum.splits)
  from tracked_any_step[OF Cons.prems(1,2) s1] Cons.IH[OF Cons.prems(1) _ r] show ?case by blast
qed

lemma tracked_any_waiter_runs:
  assumes "tracked_any n k s" "waiting s n = Some g" "done_chan (sent s ! k)"
  shows "calls_of n (waiter_runs n s) =
     (case AfterFunc (w_rq g) of None \<Rightarrow> [] | Some f \<Rightarrow> [(n, f, handlerReturn (sent s ! k))])"
  using assms by (auto simp: tracked_any_def waiter_runs_def calls_of_def split: option.splits)

lemma untracked_engine: "untracked n s \<Longrightarrow> untracked n (engine_completes j v s)"
  by (auto simp: untracked_def engine_completes_def calls_of_simps)

lemma untracked_waiter: "untracked n s \<Longrightarrow> untracked n (waiter_runs m s)"
  by (auto simp: untracked_def waiter_runs_def calls_of_def split: option.splits)

lemma untracked_writes: "untracked n s \<Longrightarrow> untracked n (provider_writes m af s)"
  by (auto simp: untracked_def provider_writes_def calls_of_def split: option.splits)

lemma untracked_body:
  assumes "pipe_body body" "untracked n s" "body provided s = Inr s'"
  shows "untracked n (s'\<lparr>iterations := Suc (iterations s')\<rparr>)"
proof -
  from assms(1,3) have it: "iterations s' = iterations s" and cl: "calls s' = calls s"
    and alt: "sent s' = sent s \<and> waiting s' = waiting s \<or>
         (\<exists>fc rq. provided = Some rq \<and> sent s' = sent s @ [fc] \<and>
            waiting s' =
              (if AfterFunc rq = None then waiting s
               else (waiting s)(iterations s \<mapsto> \<lparr>w_fc = length (sent s), w_rq = rq\<rparr>)))"
    unfolding pipe_body_def iteration_effect_def by blast+
  have co: "calls_of n s' = calls_of n s" using cl by (simp add: calls_of_def)
  from alt show ?thesis
    using assms(2) it co unfolding untracked_def
    by (elim disjE conjE exE) (auto simp: calls_of_simps)
qed

lemma untracked_step:
  "pipe_body body \<Longrightarrow> untracked n s \<Longrightarrow> step body e s = Inr s' \<Longrightarrow> untracked n s'"
  by (cases e)
     (auto simp: untracked_engine untracked_waiter untracked_writes untracked_body
        split: sum.splits)

lemma untracked_run:
  "pipe_body body \<Longrightarrow> untracked n s \<Longrightarrow> run body es s = Inr s' \<Longrightarrow> untracked n s'"
proof (induction es arbitrary: s)
  case Nil
  then show ?case by simp
next
  case (Cons e es)
  from Cons.prems(3) obtain s1 where s1: "step body e s = Inr s1" and r: "run body es s1 = Inr s'"
    by (auto split: sum.splits)
  from untracked_step[OF Cons.prems(1,2) s1] Cons.IH[OF Cons.prems(1) _ r] show ?case by blast
qed

lemma reach_inv_fresh:
  "reach_inv s \<Longrightarrow> waiting s (iterations s) = None \<and> calls_of (iterations s) s = []"
  unfolding reach_inv_def calls_of_def
  by (cases "waiting s (iterations s)") (auto simp: filter_empty_conv)

lemma notify_kind: "kind n = kind n' \<Longrightarrow> notify n w = notify n' w"
  by (cases n; cases n')
     (simp_all add: ThreadActivatedNotification_def ThreadDrainNotification_def
        ThreadDeactivatedNotification_def)

lemma notify_all_kinds:
  "map kind ns = map kind ns' \<Longrightarrow> notify_all ns w = notify_all ns' w"
proof (induction ns arbitrary: ns' w)
  case Nil
  then show ?case by simp
next
  case (Cons n ns)
  from Cons.prems obtain n' ms where ns': "ns' = n' # ms" by (cases ns') auto
  with Cons.prems have k: "kind n = kind n'" and rest: "map kind ns = map kind ms" by auto
  show ?case using notify_kind[OF k, of w] Cons.IH[OF rest] ns' by simp
qed

lemma notify_all_activatedCount:
  "activatedCount (notify_all ns w) =
     activatedCount w + of_nat (count_list (map kind ns) KActivated)
       - of_nat (count_list (map kind ns) KDeactivated)"
proof (induction ns arbitrary: w)
  case Nil
  then show ?case by simp
next
  case (Cons n ns)
  show ?case
    by (cases n)
       (simp_all add: Cons.IH ThreadActivatedNotification_def ThreadDrainNotification_def
          ThreadDeactivatedNotification_def)
qed

lemma notify_all_drainCount:
  "drainCount (notify_all ns w) =
     drainCount w + of_nat (count_list (map kind ns) KDrain)
       - of_nat (count_list (map kind ns) KDeactivated)"
proof (induction ns arbitrary: w)
  case Nil
  then show ?case by simp
next
  case (Cons n ns)
  show ?case
    by (cases n)
       (simp_all add: Cons.IH ThreadActivatedNotification_def ThreadDrainNotification_def
          ThreadDeactivatedNotification_def)
qed

lemma dropped_never_called:
  assumes pb: "pipe_body body"
    and reach: "run body es0 pipe_init = Inr s"
    and iter: "body provided s = Inr s1"
    and same: "sent s1 = sent s"
    and later: "run body es (s1\<lparr>iterations := Suc (iterations s1)\<rparr>) = Inr s2"
  shows "calls_of (iterations s) s2 = [] \<and> waiting s2 (iterations s) = None"
proof -
  have "reach_inv s" using reach_inv_run[OF pb reach_inv_init reach] .
  then have fresh: "waiting s (iterations s) = None" "calls_of (iterations s) s = []"
    using reach_inv_fresh by blast+
  from pb iter have eff: "iteration_effect provided s s1"
    unfolding pipe_body_def by blast
  with same have "iterations s1 = iterations s" "calls s1 = calls s" "waiting s1 = waiting s"
    unfolding iteration_effect_def by auto
  with fresh have "untracked (iterations s) (s1\<lparr>iterations := Suc (iterations s1)\<rparr>)"
    by (simp add: untracked_def calls_of_def)
  from untracked_run[OF pb this later] show ?thesis
    by (simp add: untracked_def)
qed

lemma dispatched_is_tracked:
  assumes pb: "pipe_body body"
    and reach: "run body es0 pipe_init = Inr s"
    and iter: "body (Some rq) s = Inr s1"
    and cb: "AfterFunc rq = Some f"
    and grown: "length (sent s1) = Suc (length (sent s))"
    and later: "run body es (s1\<lparr>iterations := Suc (iterations s1)\<rparr>) = Inr s2"
  shows "tracked_any (iterations s) (length (sent s)) s2"
    and "iterations s \<notin> set (writes es) \<Longrightarrow> tracked (iterations s) (length (sent s)) rq f s2"
proof -
  have "reach_inv s" using reach_inv_run[OF pb reach_inv_init reach] .
  then have fresh: "calls_of (iterations s) s = []"
    using reach_inv_fresh by blast
  from pb iter have eff: "iteration_effect (Some rq) s s1"
    unfolding pipe_body_def by blast
  from grown have "sent s1 \<noteq> sent s" by auto
  with eff cb have "iterations s1 = iterations s" "calls s1 = calls s"
    "waiting s1 = (waiting s)(iterations s \<mapsto> \<lparr>w_fc = length (sent s), w_rq = rq\<rparr>)"
    unfolding iteration_effect_def by auto
  with fresh grown
  have t: "tracked (iterations s) (length (sent s)) rq f (s1\<lparr>iterations := Suc (iterations s1)\<rparr>)"
    by (simp add: tracked_def calls_of_def)
  then have "tracked_any (iterations s) (length (sent s)) (s1\<lparr>iterations := Suc (iterations s1)\<rparr>)"
    by (auto simp: tracked_def tracked_any_def)
  from tracked_any_run[OF pb this later]
  show "tracked_any (iterations s) (length (sent s)) s2" .
  show "tracked (iterations s) (length (sent s)) rq f s2" if "iterations s \<notin> set (writes es)"
    using tracked_run[OF pb cb t that later] .
qed

lemma tracked_waiter_runs:
  assumes "AfterFunc rq = Some f" "tracked n k rq f s" "done_chan (sent s ! k)"
  shows "calls_of n (waiter_runs n s) = [(n, f, handlerReturn (sent s ! k))]"
  using assms by (auto simp: tracked_def waiter_runs_def calls_of_def)

lemmas sample_defs =
  sample_frankenphp_def sample_NewRequestWithContext_def sample_fromContext_def
  fresh_context_def sample_request_def pipe_init_def

lemmas loop_defs =
  startWorker_def startWorker_iteration_def startWorker_queue_def
  startExternalWorkerPipe_def startExternalWorkerPipe_iteration_def
  startExternalWorkerPipe_queue_def provided_nil_request_def
  engine_completes_def waiter_runs_def provider_writes_def calls_of_def Let_def

section \<open>The pipe loops\<close>

text \<open>
  C1 (as stated): in every iteration in which \<^verbatim>\<open>ProvideRequest\<close> returns nil or a request
  whose \<^verbatim>\<open>Request\<close> is nil, the loop synthesizes an empty context and sends it, and does
  not panic. \<^verbatim>\<open>startExternalWorkerPipe\<close> sends nothing for such a request, be it nil or
  with a nil \<^verbatim>\<open>Request\<close>: it logs a warning and goes to the next iteration.
  \<^verbatim>\<open>startWorker\<close> panics on nil, at \<^verbatim>\<open>rq.Request\<close>.
\<close>

theorem nil_request_counterexample:
  "startExternalWorkerPipe sample_frankenphp ''mockWorker'' 0
       [Provides (Some (sample_request\<lparr>Request := None\<rparr>))] pipe_init
     = Inr (pipe_init\<lparr>log := [(LevelWarn, ''external worker provided nil request'',
                            [slog_String ''worker'' ''mockWorker'', slog_Int ''thread'' 0])], iterations := 1\<rparr>) \<and>
   sent (pipe_init\<lparr>log := [(LevelWarn, ''external worker provided nil request'',
                            [slog_String ''worker'' ''mockWorker'', slog_Int ''thread'' 0])], iterations := 1\<rparr>) = [] \<and>
   startExternalWorkerPipe sample_frankenphp ''mockWorker'' 0 [Provides None] pipe_init
     = Inr (pipe_init\<lparr>log := [(LevelWarn, ''external worker provided nil request'',
                            [slog_String ''worker'' ''mockWorker'', slog_Int ''thread'' 0])], iterations := 1\<rparr>) \<and>
   startWorker sample_frankenphp ''mockWorker'' 0 [Provides None] pipe_init
     = Inl NilPointerDereference"
  by (simp add: startExternalWorkerPipe_def startExternalWorkerPipe_iteration_def
      provided_nil_request_def startWorker_def startWorker_iteration_def
      sample_request_def pipe_init_def nil_request_record_def)

text \<open>
  C1 (amended): in every iteration of \<^verbatim>\<open>startWorker\<close> in which \<^verbatim>\<open>ProvideRequest\<close> returns a
  request whose \<^verbatim>\<open>Request\<close> is nil, the loop takes a context from
  \<^verbatim>\<open>newFrankenPHPContext()\<close>, gives it the logger, the worker and the request's response
  writer and callback parameters, and sends it to the worker's request channel; this is
  no error, the loop goes on, and a well-formed request that comes next is served (its
  context is sent next). In every iteration of \<^verbatim>\<open>startExternalWorkerPipe\<close> in which
  \<^verbatim>\<open>ProvideRequest\<close> returns nil or a request whose \<^verbatim>\<open>Request\<close> is nil, the loop sends
  nothing and only logs a warning with the worker's name and the thread's index; it
  does not panic, it goes on, and a well-formed request that comes next is served.
\<close>

theorem nil_request_handling:
  "(Request rq = None \<longrightarrow>
      startWorker_iteration P w t (Some rq) s
        = Inr (startWorker_queue w t rq ((newFrankenPHPContext P)\<lparr>logger := Some (pkg_logger P)\<rparr>) s) \<and>
      sent (startWorker_queue w t rq ((newFrankenPHPContext P)\<lparr>logger := Some (pkg_logger P)\<rparr>) s)
        = sent s @ [(newFrankenPHPContext P)\<lparr>logger := Some (pkg_logger P), worker := Some w,
                      responseWriter := Response rq,
                      handlerParameters := CallbackParameters rq\<rparr>] \<and>
      startWorker P w t (Provides (Some rq) # es) s
        = startWorker P w t es
            ((startWorker_queue w t rq
                ((newFrankenPHPContext P)\<lparr>logger := Some (pkg_logger P)\<rparr>) s)
               \<lparr>iterations := Suc (iterations s)\<rparr>) \<and>
      (Request rq2 = Some r2 \<and> NewRequestWithContext P r2 [WithOriginalRequest r2] = Inr fr \<and>
       fromContext P fr = Some fc \<longrightarrow>
         (\<exists>s2. startWorker P w t [Provides (Some rq), Provides (Some rq2)] s = Inr s2 \<and>
            sent s2 = sent s @
              [(newFrankenPHPContext P)\<lparr>logger := Some (pkg_logger P), worker := Some w,
                  responseWriter := Response rq, handlerParameters := CallbackParameters rq\<rparr>,
               fc\<lparr>worker := Some w, responseWriter := Response rq2,
                  handlerParameters := CallbackParameters rq2\<rparr>]))) \<and>
   (provided_nil_request provided \<longrightarrow>
      startExternalWorkerPipe_iteration P w t provided s
        = Inr (s\<lparr>log := log s @ [(LevelWarn, ''external worker provided nil request'',
                              [slog_String ''worker'' w, slog_Int ''thread'' t])]\<rparr>) \<and>
      startExternalWorkerPipe P w t (Provides provided # es) s
        = startExternalWorkerPipe P w t es
            (s\<lparr>log := log s @ [(LevelWarn, ''external worker provided nil request'',
                              [slog_String ''worker'' w, slog_Int ''thread'' t])], iterations := Suc (iterations s)\<rparr>) \<and>
      (Request rq2 = Some r2 \<and>
       NewRequestWithContext P r2 [WithOriginalRequest r2, WithWorkerName w] = Inr fr \<and>
       fromContext P fr = Some fc \<longrightarrow>
         (\<exists>s2. startExternalWorkerPipe P w t [Provides provided, Provides (Some rq2)] s = Inr s2 \<and>
            sent s2 = sent s @
              [fc\<lparr>responseWriter := Response rq2,
                  handlerParameters := CallbackParameters rq2\<rparr>])))"
proof -
  let ?fc0 = "(newFrankenPHPContext P)\<lparr>logger := Some (pkg_logger P)\<rparr>"
  have A1: "startWorker_iteration P w t (Some rq) s = Inr (startWorker_queue w t rq ?fc0 s)"
    if "Request rq = None"
    using that by (simp add: startWorker_iteration_def)
  have A2: "sent (startWorker_queue w t rq ?fc0 s)
        = sent s @ [(newFrankenPHPContext P)\<lparr>logger := Some (pkg_logger P), worker := Some w,
                      responseWriter := Response rq,
                      handlerParameters := CallbackParameters rq\<rparr>]"
    by (simp add: startWorker_queue_fields)
  have A3: "startWorker P w t (Provides (Some rq) # es) s
        = startWorker P w t es ((startWorker_queue w t rq ?fc0 s)\<lparr>iterations := Suc (iterations s)\<rparr>)"
    if "Request rq = None"
    using A1[OF that] by (simp add: startWorker_def startWorker_queue_fields)
  have A4: "\<exists>s2. startWorker P w t [Provides (Some rq), Provides (Some rq2)] s = Inr s2 \<and>
            sent s2 = sent s @
              [(newFrankenPHPContext P)\<lparr>logger := Some (pkg_logger P), worker := Some w,
                  responseWriter := Response rq, handlerParameters := CallbackParameters rq\<rparr>,
               fc\<lparr>worker := Some w, responseWriter := Response rq2,
                  handlerParameters := CallbackParameters rq2\<rparr>]"
    if "Request rq = None" "Request rq2 = Some r2"
      "NewRequestWithContext P r2 [WithOriginalRequest r2] = Inr fr" "fromContext P fr = Some fc"
    using that
    by (simp add: startWorker_def startWorker_iteration_def startWorker_queue_fields)
  have B1: "startExternalWorkerPipe_iteration P w t provided s
        = Inr (s\<lparr>log := log s @ [(LevelWarn, ''external worker provided nil request'',
                              [slog_String ''worker'' w, slog_Int ''thread'' t])]\<rparr>)"
    if "provided_nil_request provided"
    using that by (simp add: startExternalWorkerPipe_iteration_def nil_request_record_def)
  have B3: "startExternalWorkerPipe P w t (Provides provided # es) s
        = startExternalWorkerPipe P w t es
            (s\<lparr>log := log s @ [(LevelWarn, ''external worker provided nil request'',
                              [slog_String ''worker'' w, slog_Int ''thread'' t])], iterations := Suc (iterations s)\<rparr>)"
    if "provided_nil_request provided"
    using B1[OF that] by (simp add: startExternalWorkerPipe_def)
  have B4: "\<exists>s2. startExternalWorkerPipe P w t [Provides provided, Provides (Some rq2)] s = Inr s2 \<and>
            sent s2 = sent s @
              [fc\<lparr>responseWriter := Response rq2,
                  handlerParameters := CallbackParameters rq2\<rparr>]"
    if "provided_nil_request provided" "Request rq2 = Some r2"
      "NewRequestWithContext P r2 [WithOriginalRequest r2, WithWorkerName w] = Inr fr"
      "fromContext P fr = Some fc"
  proof -
    have "\<not> provided_nil_request (Some rq2)"
      using that(2) by (simp add: provided_nil_request_def)
    then show ?thesis
      using that B1[OF that(1)]
      by (simp add: startExternalWorkerPipe_def startExternalWorkerPipe_iteration_def
          startExternalWorkerPipe_queue_fields)
  qed
  from A1 A2 A3 A4 B1 B3 B4 show ?thesis
    by blast
qed

theorem nil_request_handling_witness:
  "Request (sample_request\<lparr>Request := None\<rparr>) = None \<and>
   provided_nil_request None \<and>
   Request sample_request = Some ''https://example.com/test/?foo=bar'' \<and>
   NewRequestWithContext sample_frankenphp ''https://example.com/test/?foo=bar''
       [WithOriginalRequest ''https://example.com/test/?foo=bar'']
     = Inr ''https://example.com/test/?foo=bar'' \<and>
   NewRequestWithContext sample_frankenphp ''https://example.com/test/?foo=bar''
       [WithOriginalRequest ''https://example.com/test/?foo=bar'', WithWorkerName ''mockWorker'']
     = Inr ''https://example.com/test/?foo=bar'' \<and>
   fromContext sample_frankenphp ''https://example.com/test/?foo=bar'' = Some fresh_context \<and>
   (\<exists>s2. startWorker sample_frankenphp ''mockWorker'' 0
            [Provides (Some (sample_request\<lparr>Request := None\<rparr>)), Provides (Some sample_request)]
            pipe_init = Inr s2 \<and>
         length (sent s2) = 2) \<and>
   (\<exists>s2. startExternalWorkerPipe sample_frankenphp ''mockWorker'' 0
            [Provides None, Provides (Some sample_request)] pipe_init = Inr s2 \<and>
         length (sent s2) = 1)"
proof -
  let ?r = "''https://example.com/test/?foo=bar''"
  have h1: "Request (sample_request\<lparr>Request := None\<rparr>) = None"
    by simp
  have h2: "provided_nil_request None"
    by (simp add: provided_nil_request_def)
  have h3: "Request sample_request = Some ?r"
    by (simp add: sample_request_def)
  have e1: "NewRequestWithContext sample_frankenphp ?r [WithOriginalRequest ?r] = Inr ?r"
    by (simp add: sample_defs)
  have e2: "NewRequestWithContext sample_frankenphp ?r
      [WithOriginalRequest ?r, WithWorkerName ''mockWorker''] = Inr ?r"
    by (simp add: sample_defs)
  have c: "fromContext sample_frankenphp ?r = Some fresh_context"
    by (simp add: sample_defs)
  have s0: "sent pipe_init = []"
    by (simp add: pipe_init_def)
  note th = nil_request_handling
    [of "sample_request\<lparr>Request := None\<rparr>" sample_frankenphp "''mockWorker''" 0 pipe_init "[]"
        sample_request ?r ?r fresh_context None]
  from th h1 h3 e1 c
  have a: "\<exists>s2. startWorker sample_frankenphp ''mockWorker'' 0
            [Provides (Some (sample_request\<lparr>Request := None\<rparr>)), Provides (Some sample_request)]
            pipe_init = Inr s2 \<and> length (sent s2) = 2"
    unfolding s0 by fastforce
  from th h2 h3 e2 c
  have b: "\<exists>s2. startExternalWorkerPipe sample_frankenphp ''mockWorker'' 0
            [Provides None, Provides (Some sample_request)] pipe_init = Inr s2 \<and>
         length (sent s2) = 1"
    unfolding s0 by fastforce
  from h1 h2 h3 e1 e2 c a b show ?thesis
    by blast
qed

text \<open>
  C2 (as stated): the \<^verbatim>\<open>AfterFunc\<close> of every request that has one and whose context is
  dispatched is invoked exactly once after the context's \<open>done\<close> channel has closed. The
  goroutine holds the pointer to the request and reads \<^verbatim>\<open>rq.AfterFunc\<close> again after
  \<^verbatim>\<open><-fc.done\<close>, guarding the call with \<^verbatim>\<open>if rq.AfterFunc != nil\<close>. In the run below
  \<^verbatim>\<open>startWorker\<close> dispatches the context of a request whose \<^verbatim>\<open>AfterFunc\<close> is function 7,
  the provider then sets the field to nil, the engine completes the context and the
  goroutine runs: the goroutine has ended, the channel is closed, and no call was made.
\<close>

theorem AfterFunc_called_once_counterexample:
  "AfterFunc sample_request = Some 7 \<and>
   startWorker sample_frankenphp ''mockWorker'' 0
       [Provides (Some sample_request), Writes 0 None, Completes 0 (AnyInt 42), Wakes 0]
       pipe_init
     = Inr \<lparr>iterations = 1,
            log = [(LevelInfo, ''queue the external worker request'',
                    [slog_String ''worker'' ''mockWorker'', slog_Int ''thread'' 0])],
            sent = [\<lparr>logger = None, worker = Some ''mockWorker'', responseWriter = Some 1,
                     handlerParameters = AnyNil, handlerReturn = AnyInt 42,
                     done_chan = True\<rparr>],
            waiting = Map.empty,
            calls = []\<rparr>"
  by (simp add: loop_defs sample_defs queue_record_def)

text \<open>
  C2 (amended): take either loop, in any state \<open>s\<close> it can reach, at the iteration
  (number \<open>n\<close>) that gets the request \<open>rq\<close> from \<^verbatim>\<open>ProvideRequest\<close>, and any state \<open>s2\<close>
  reached later, whatever the loop, the engine, the scheduler and the providers of
  requests do in between. If \<open>rq\<close> has an \<^verbatim>\<open>AfterFunc\<close> \<open>f\<close> when the iteration reads it and
  the iteration sent a context (at position \<open>k\<close>), then in \<open>s2\<close>:
  \<^item> either the goroutine of this iteration still waits for that context and no call
    has been made for the request, or the goroutine has ended, the context's \<open>done\<close>
    channel is closed and at most one call has been made, with the context's
    \<open>handlerReturn\<close>; so no call is made while the channel is open;
  \<^item> once the channel is closed, running the goroutine calls the function that the
    request's \<^verbatim>\<open>AfterFunc\<close> field holds at that moment, with \<open>handlerReturn\<close>, and makes no
    call if the field is nil by then;
  \<^item> if nobody has written the request's \<^verbatim>\<open>AfterFunc\<close> since the iteration, then either
    the goroutine still waits and \<open>f\<close> has not been called, or it has ended, the channel
    is closed and \<open>f\<close> has been called exactly once, with \<open>handlerReturn\<close>; and once the
    channel is closed, running the goroutine leaves exactly that one call of \<open>f\<close>.
  If the iteration sent nothing, then no goroutine of it exists and no call for it is
  ever recorded.
\<close>

theorem AfterFunc_called_once_after_done:
  assumes "run (pipe_iteration L P w t) es0 pipe_init = Inr s"
    and "pipe_iteration L P w t (Some rq) s = Inr s1"
    and "run (pipe_iteration L P w t) es (s1\<lparr>iterations := Suc (iterations s1)\<rparr>) = Inr s2"
    and "n = iterations s" and "k = length (sent s)"
  shows "(AfterFunc rq = Some f \<and> length (sent s1) = Suc (length (sent s)) \<longrightarrow>
            k < length (sent s2) \<and>
            ((\<exists>g. waiting s2 n = Some g \<and> w_fc g = k) \<and> calls_of n s2 = [] \<or>
             waiting s2 n = None \<and> done_chan (sent s2 ! k) \<and>
               (calls_of n s2 = [] \<or>
                (\<exists>f'. calls_of n s2 = [(n, f', handlerReturn (sent s2 ! k))]))) \<and>
            (\<not> done_chan (sent s2 ! k) \<longrightarrow> calls_of n s2 = []) \<and>
            (\<forall>g. waiting s2 n = Some g \<and> done_chan (sent s2 ! k) \<longrightarrow>
               calls_of n (waiter_runs n s2) =
                 (case AfterFunc (w_rq g) of
                    None \<Rightarrow> []
                  | Some f' \<Rightarrow> [(n, f', handlerReturn (sent s2 ! k))])) \<and>
            (n \<notin> set (writes es) \<longrightarrow>
               (waiting s2 n = Some \<lparr>w_fc = k, w_rq = rq\<rparr> \<and> calls_of n s2 = [] \<or>
                waiting s2 n = None \<and> done_chan (sent s2 ! k) \<and>
                  calls_of n s2 = [(n, f, handlerReturn (sent s2 ! k))]) \<and>
               (done_chan (sent s2 ! k) \<longrightarrow>
                  calls_of n (waiter_runs n s2) = [(n, f, handlerReturn (sent s2 ! k))]))) \<and>
         (sent s1 = sent s \<longrightarrow> calls_of n s2 = [] \<and> waiting s2 n = None)"
proof -
  have pb: "pipe_body (pipe_iteration L P w t)" by (rule pipe_body_pipe_iteration)
  have first: "k < length (sent s2) \<and>
            ((\<exists>g. waiting s2 n = Some g \<and> w_fc g = k) \<and> calls_of n s2 = [] \<or>
             waiting s2 n = None \<and> done_chan (sent s2 ! k) \<and>
               (calls_of n s2 = [] \<or>
                (\<exists>f'. calls_of n s2 = [(n, f', handlerReturn (sent s2 ! k))]))) \<and>
            (\<not> done_chan (sent s2 ! k) \<longrightarrow> calls_of n s2 = []) \<and>
            (\<forall>g. waiting s2 n = Some g \<and> done_chan (sent s2 ! k) \<longrightarrow>
               calls_of n (waiter_runs n s2) =
                 (case AfterFunc (w_rq g) of
                    None \<Rightarrow> []
                  | Some f' \<Rightarrow> [(n, f', handlerReturn (sent s2 ! k))]))"
    if cb: "AfterFunc rq = Some f" and grown: "length (sent s1) = Suc (length (sent s))"
  proof -
    have ta: "tracked_any n k s2"
      using dispatched_is_tracked(1)[OF pb assms(1,2) cb grown assms(3)] assms(4,5) by simp
    have "calls_of n (waiter_runs n s2) =
            (case AfterFunc (w_rq g) of
               None \<Rightarrow> []
             | Some f' \<Rightarrow> [(n, f', handlerReturn (sent s2 ! k))])"
      if "waiting s2 n = Some g" "done_chan (sent s2 ! k)" for g
      using tracked_any_waiter_runs[OF ta that] .
    moreover have "k < length (sent s2)"
      "(\<exists>g. waiting s2 n = Some g \<and> w_fc g = k) \<and> calls_of n s2 = [] \<or>
             waiting s2 n = None \<and> done_chan (sent s2 ! k) \<and>
               (calls_of n s2 = [] \<or>
                (\<exists>f'. calls_of n s2 = [(n, f', handlerReturn (sent s2 ! k))]))"
      using ta by (simp_all add: tracked_any_def)
    moreover have "calls_of n s2 = []" if "\<not> done_chan (sent s2 ! k)"
      using ta that by (auto simp: tracked_any_def)
    ultimately show ?thesis by blast
  qed
  have unwritten: "(waiting s2 n = Some \<lparr>w_fc = k, w_rq = rq\<rparr> \<and> calls_of n s2 = [] \<or>
                waiting s2 n = None \<and> done_chan (sent s2 ! k) \<and>
                  calls_of n s2 = [(n, f, handlerReturn (sent s2 ! k))]) \<and>
               (done_chan (sent s2 ! k) \<longrightarrow>
                  calls_of n (waiter_runs n s2) = [(n, f, handlerReturn (sent s2 ! k))])"
    if cb: "AfterFunc rq = Some f" and grown: "length (sent s1) = Suc (length (sent s))"
      and nw: "n \<notin> set (writes es)"
  proof -
    have tr: "tracked n k rq f s2"
      using dispatched_is_tracked(2)[OF pb assms(1,2) cb grown assms(3)] nw assms(4,5) by simp
    show ?thesis
      using tr tracked_waiter_runs[OF cb tr] by (auto simp: tracked_def)
  qed
  have second: "calls_of n s2 = [] \<and> waiting s2 n = None" if "sent s1 = sent s"
    using dropped_never_called[OF pb assms(1,2) that assms(3)] assms(4) by simp
  from first unwritten second show ?thesis by blast
qed

theorem AfterFunc_called_once_after_done_witness:
  "run (pipe_iteration StartWorker sample_frankenphp ''mockWorker'' 0) [] pipe_init = Inr pipe_init \<and>
   pipe_iteration StartWorker sample_frankenphp ''mockWorker'' 0 (Some sample_request) pipe_init
     = Inr (startWorker_queue ''mockWorker'' 0 sample_request fresh_context pipe_init) \<and>
   run (pipe_iteration StartWorker sample_frankenphp ''mockWorker'' 0)
       [Completes 0 (AnyInt 42), Wakes 0]
       ((startWorker_queue ''mockWorker'' 0 sample_request fresh_context pipe_init)
          \<lparr>iterations := Suc (iterations
              (startWorker_queue ''mockWorker'' 0 sample_request fresh_context pipe_init))\<rparr>)
     = Inr (waiter_runs 0 (engine_completes 0 (AnyInt 42)
         ((startWorker_queue ''mockWorker'' 0 sample_request fresh_context pipe_init)
            \<lparr>iterations := Suc (iterations
                (startWorker_queue ''mockWorker'' 0 sample_request fresh_context pipe_init))\<rparr>))) \<and>
   0 = iterations pipe_init \<and> 0 = length (sent pipe_init) \<and>
   AfterFunc sample_request = Some 7 \<and>
   length (sent (startWorker_queue ''mockWorker'' 0 sample_request fresh_context pipe_init))
     = Suc (length (sent pipe_init)) \<and>
   0 \<notin> set (writes [Completes 0 (AnyInt 42), Wakes 0]) \<and>
   calls (waiter_runs 0 (engine_completes 0 (AnyInt 42)
         ((startWorker_queue ''mockWorker'' 0 sample_request fresh_context pipe_init)
            \<lparr>iterations := Suc (iterations
                (startWorker_queue ''mockWorker'' 0 sample_request fresh_context pipe_init))\<rparr>)))
     = [(0, 7, AnyInt 42)] \<and>
   calls_of 0 (waiter_runs 0 (engine_completes 0 (AnyInt 42)
         ((startWorker_queue ''mockWorker'' 0 sample_request fresh_context pipe_init)
            \<lparr>iterations := Suc (iterations
                (startWorker_queue ''mockWorker'' 0 sample_request fresh_context pipe_init))\<rparr>)))
     = [(0, 7, AnyInt 42)]"
proof -
  let ?s1 = "startWorker_queue ''mockWorker'' 0 sample_request fresh_context pipe_init"
  let ?s2 = "waiter_runs 0 (engine_completes 0 (AnyInt 42) (?s1\<lparr>iterations := Suc (iterations ?s1)\<rparr>))"
  have h1: "run (pipe_iteration StartWorker sample_frankenphp ''mockWorker'' 0) [] pipe_init = Inr pipe_init"
    by simp
  have h2: "pipe_iteration StartWorker sample_frankenphp ''mockWorker'' 0 (Some sample_request) pipe_init
      = Inr ?s1"
    by (simp add: startWorker_iteration_def sample_defs)
  have h3: "run (pipe_iteration StartWorker sample_frankenphp ''mockWorker'' 0)
       [Completes 0 (AnyInt 42), Wakes 0] (?s1\<lparr>iterations := Suc (iterations ?s1)\<rparr>) = Inr ?s2"
    by simp
  have h4: "0 = iterations pipe_init" and h5: "0 = length (sent pipe_init)"
    by (simp_all add: pipe_init_def)
  have cb: "AfterFunc sample_request = Some 7"
    by (simp add: sample_request_def)
  have grown: "length (sent ?s1) = Suc (length (sent pipe_init))"
    by (simp add: startWorker_queue_def Let_def)
  have nw: "0 \<notin> set (writes [Completes 0 (AnyInt 42), Wakes 0])"
    by simp
  have gone: "waiting ?s2 0 = None"
    by (simp add: loop_defs sample_defs)
  have ret: "handlerReturn (sent ?s2 ! 0) = AnyInt 42"
    by (simp add: loop_defs sample_defs)
  have all: "calls ?s2 = [(0, 7, AnyInt 42)]"
    by (simp add: loop_defs sample_defs)
  from AfterFunc_called_once_after_done [OF h1 h2 h3 h4 h5, of 7] cb grown nw gone
  have "calls_of 0 ?s2 = [(0, 7, handlerReturn (sent ?s2 ! 0))]"
    by force
  then have "calls_of 0 ?s2 = [(0, 7, AnyInt 42)]"
    unfolding ret .
  with h1 h2 h3 h4 h5 cb grown nw all show ?thesis
    by blast
qed

text \<open>
  C4: when the provided request has a payload that \<^verbatim>\<open>NewRequestWithContext\<close> rejects with
  an error, the iteration of either loop only adds one error record to the log, with the
  worker's name, the thread's index and the error; it sends nothing and starts no
  goroutine. The loop does not stop: it goes on with whatever comes next, from that
  state. And in no state reached later has the \<^verbatim>\<open>AfterFunc\<close> of the dropped request been
  called.
\<close>

theorem malformed_request_logged_and_dropped:
  assumes "Request rq = Some r"
  shows "(NewRequestWithContext P r [WithOriginalRequest r] = Inl err \<longrightarrow>
            startWorker_iteration P w t (Some rq) s
              = Inr (s\<lparr>log := log s @ [(LevelError, ''error creating request for external worker'',
                                 [slog_String ''worker'' w, slog_Int ''thread'' t,
                                  slog_Any ''error'' err])]\<rparr>) \<and>
            startWorker P w t (Provides (Some rq) # es) s
              = startWorker P w t es
                  (s\<lparr>log := log s @ [(LevelError, ''error creating request for external worker'',
                                 [slog_String ''worker'' w, slog_Int ''thread'' t,
                                  slog_Any ''error'' err])],
                     iterations := Suc (iterations s)\<rparr>) \<and>
            (startWorker P w t es0 pipe_init = Inr s \<and>
             startWorker P w t (Provides (Some rq) # es) s = Inr s2 \<longrightarrow>
               calls_of (iterations s) s2 = [] \<and> waiting s2 (iterations s) = None)) \<and>
         (NewRequestWithContext P r [WithOriginalRequest r, WithWorkerName w] = Inl err \<longrightarrow>
            startExternalWorkerPipe_iteration P w t (Some rq) s
              = Inr (s\<lparr>log := log s @ [(LevelError, ''error creating request for external worker'',
                                 [slog_String ''worker'' w, slog_Int ''thread'' t,
                                  slog_Any ''error'' err])]\<rparr>) \<and>
            startExternalWorkerPipe P w t (Provides (Some rq) # es) s
              = startExternalWorkerPipe P w t es
                  (s\<lparr>log := log s @ [(LevelError, ''error creating request for external worker'',
                                 [slog_String ''worker'' w, slog_Int ''thread'' t,
                                  slog_Any ''error'' err])],
                     iterations := Suc (iterations s)\<rparr>) \<and>
            (startExternalWorkerPipe P w t es0 pipe_init = Inr s \<and>
             startExternalWorkerPipe P w t (Provides (Some rq) # es) s = Inr s2 \<longrightarrow>
               calls_of (iterations s) s2 = [] \<and> waiting s2 (iterations s) = None))"
proof -
  let ?s1 = "s\<lparr>log := log s @
       [(LevelError, ''error creating request for external worker'',
         [slog_String ''worker'' w, slog_Int ''thread'' t, slog_Any ''error'' err])]\<rparr>"
  have A: "startWorker_iteration P w t (Some rq) s = Inr ?s1"
    if "NewRequestWithContext P r [WithOriginalRequest r] = Inl err"
    using assms that by (simp add: startWorker_iteration_def adapt_error_record_def)
  have B: "startExternalWorkerPipe_iteration P w t (Some rq) s = Inr ?s1"
    if "NewRequestWithContext P r [WithOriginalRequest r, WithWorkerName w] = Inl err"
    using assms that
    by (simp add: startExternalWorkerPipe_iteration_def provided_nil_request_def
        adapt_error_record_def)
  have A2: "calls_of (iterations s) s2 = [] \<and> waiting s2 (iterations s) = None"
    if e: "NewRequestWithContext P r [WithOriginalRequest r] = Inl err"
      and r0: "startWorker P w t es0 pipe_init = Inr s"
      and r2: "startWorker P w t (Provides (Some rq) # es) s = Inr s2"
  proof -
    have "run (startWorker_iteration P w t) es (?s1\<lparr>iterations := Suc (iterations ?s1)\<rparr>) = Inr s2"
      using r2 A[OF e] by (simp add: startWorker_def)
    from dropped_never_called[OF pipe_body_startWorker r0[unfolded startWorker_def] A[OF e] _ this]
    show ?thesis by simp
  qed
  have B2: "calls_of (iterations s) s2 = [] \<and> waiting s2 (iterations s) = None"
    if e: "NewRequestWithContext P r [WithOriginalRequest r, WithWorkerName w] = Inl err"
      and r0: "startExternalWorkerPipe P w t es0 pipe_init = Inr s"
      and r2: "startExternalWorkerPipe P w t (Provides (Some rq) # es) s = Inr s2"
  proof -
    have "run (startExternalWorkerPipe_iteration P w t) es
            (?s1\<lparr>iterations := Suc (iterations ?s1)\<rparr>) = Inr s2"
      using r2 B[OF e] by (simp add: startExternalWorkerPipe_def)
    from dropped_never_called[OF pipe_body_startExternalWorkerPipe
        r0[unfolded startExternalWorkerPipe_def] B[OF e] _ this]
    show ?thesis by simp
  qed
  show ?thesis
    using A B A2 B2 by (simp add: startWorker_def startExternalWorkerPipe_def)
qed

theorem malformed_request_logged_and_dropped_witness:
  "Request (sample_request\<lparr>Request := Some ''%''\<rparr>) = Some ''%'' \<and>
   NewRequestWithContext sample_frankenphp ''%'' [WithOriginalRequest ''%'']
     = Inl ''invalid URL escape'' \<and>
   NewRequestWithContext sample_frankenphp ''%'' [WithOriginalRequest ''%'', WithWorkerName ''mockWorker'']
     = Inl ''invalid URL escape'' \<and>
   startWorker sample_frankenphp ''mockWorker'' 3 [] pipe_init = Inr pipe_init \<and>
   startWorker sample_frankenphp ''mockWorker'' 3
       [Provides (Some (sample_request\<lparr>Request := Some ''%''\<rparr>))] pipe_init
     = Inr (pipe_init\<lparr>log := [(LevelError, ''error creating request for external worker'',
                            [slog_String ''worker'' ''mockWorker'', slog_Int ''thread'' 3,
                             slog_Any ''error'' ''invalid URL escape''])],
                      iterations := 1\<rparr>) \<and>
   startExternalWorkerPipe sample_frankenphp ''mockWorker'' 3
       [Provides (Some (sample_request\<lparr>Request := Some ''%''\<rparr>))] pipe_init
     = Inr (pipe_init\<lparr>log := [(LevelError, ''error creating request for external worker'',
                            [slog_String ''worker'' ''mockWorker'', slog_Int ''thread'' 3,
                             slog_Any ''error'' ''invalid URL escape''])],
                      iterations := 1\<rparr>) \<and>
   calls_of 0 (pipe_init\<lparr>log := [(LevelError, ''error creating request for external worker'',
                            [slog_String ''worker'' ''mockWorker'', slog_Int ''thread'' 3,
                             slog_Any ''error'' ''invalid URL escape''])],
                         iterations := 1\<rparr>) = []"
proof -
  let ?rq = "sample_request\<lparr>Request := Some ''%''\<rparr>"
  let ?s2 = "pipe_init\<lparr>log := [(LevelError, ''error creating request for external worker'',
                            [slog_String ''worker'' ''mockWorker'', slog_Int ''thread'' 3,
                             slog_Any ''error'' ''invalid URL escape''])],
                      iterations := 1\<rparr>"
  have h: "Request ?rq = Some ''%''"
    by simp
  have e1: "NewRequestWithContext sample_frankenphp ''%'' [WithOriginalRequest ''%'']
     = Inl ''invalid URL escape''"
    by (simp add: sample_defs)
  have e2: "NewRequestWithContext sample_frankenphp ''%''
      [WithOriginalRequest ''%'', WithWorkerName ''mockWorker''] = Inl ''invalid URL escape''"
    by (simp add: sample_defs)
  have r0: "startWorker sample_frankenphp ''mockWorker'' 3 [] pipe_init = Inr pipe_init"
    by (simp add: startWorker_def)
  have i0: "iterations pipe_init = 0" and l0: "log pipe_init = []"
    by (simp_all add: pipe_init_def)
  note th = malformed_request_logged_and_dropped
    [OF h, of sample_frankenphp "''invalid URL escape''" "''mockWorker''" 3 pipe_init "[]" "[]" ?s2]
  have a: "startWorker sample_frankenphp ''mockWorker'' 3 [Provides (Some ?rq)] pipe_init = Inr ?s2"
    using th e1 by (simp add: startWorker_def i0 l0)
  have b: "startExternalWorkerPipe sample_frankenphp ''mockWorker'' 3 [Provides (Some ?rq)] pipe_init
      = Inr ?s2"
    using th e2 by (simp add: startExternalWorkerPipe_def i0 l0)
  have c: "calls_of 0 ?s2 = []"
    using th e1 r0 a unfolding i0 by blast
  from h e1 e2 r0 a b c show ?thesis
    by blast
qed

text \<open>
  C9: when the provided request has a payload that \<^verbatim>\<open>NewRequestWithContext\<close> accepts but
  \<^verbatim>\<open>fromContext\<close> finds no context in the adapted request, the iteration of either loop
  leaves the state as it was: nothing is sent, no goroutine is started, nothing is
  logged. The loop goes on with whatever comes next, and in no state reached later has
  the \<^verbatim>\<open>AfterFunc\<close> of the dropped request been called.
\<close>

theorem request_without_context_dropped_silently:
  assumes "Request rq = Some r" and "fromContext P fr = None"
  shows "(NewRequestWithContext P r [WithOriginalRequest r] = Inr fr \<longrightarrow>
            startWorker_iteration P w t (Some rq) s = Inr s \<and>
            startWorker P w t (Provides (Some rq) # es) s
              = startWorker P w t es (s\<lparr>iterations := Suc (iterations s)\<rparr>) \<and>
            (startWorker P w t es0 pipe_init = Inr s \<and>
             startWorker P w t (Provides (Some rq) # es) s = Inr s2 \<longrightarrow>
               calls_of (iterations s) s2 = [] \<and> waiting s2 (iterations s) = None)) \<and>
         (NewRequestWithContext P r [WithOriginalRequest r, WithWorkerName w] = Inr fr \<longrightarrow>
            startExternalWorkerPipe_iteration P w t (Some rq) s = Inr s \<and>
            startExternalWorkerPipe P w t (Provides (Some rq) # es) s
              = startExternalWorkerPipe P w t es (s\<lparr>iterations := Suc (iterations s)\<rparr>) \<and>
            (startExternalWorkerPipe P w t es0 pipe_init = Inr s \<and>
             startExternalWorkerPipe P w t (Provides (Some rq) # es) s = Inr s2 \<longrightarrow>
               calls_of (iterations s) s2 = [] \<and> waiting s2 (iterations s) = None))"
proof -
  have A: "startWorker_iteration P w t (Some rq) s = Inr s"
    if "NewRequestWithContext P r [WithOriginalRequest r] = Inr fr"
    using assms that by (simp add: startWorker_iteration_def)
  have B: "startExternalWorkerPipe_iteration P w t (Some rq) s = Inr s"
    if "NewRequestWithContext P r [WithOriginalRequest r, WithWorkerName w] = Inr fr"
    using assms that
    by (simp add: startExternalWorkerPipe_iteration_def provided_nil_request_def)
  have A2: "calls_of (iterations s) s2 = [] \<and> waiting s2 (iterations s) = None"
    if e: "NewRequestWithContext P r [WithOriginalRequest r] = Inr fr"
      and r0: "startWorker P w t es0 pipe_init = Inr s"
      and r2: "startWorker P w t (Provides (Some rq) # es) s = Inr s2"
  proof -
    have "run (startWorker_iteration P w t) es (s\<lparr>iterations := Suc (iterations s)\<rparr>) = Inr s2"
      using r2 A[OF e] by (simp add: startWorker_def)
    from dropped_never_called[OF pipe_body_startWorker r0[unfolded startWorker_def] A[OF e] _ this]
    show ?thesis by simp
  qed
  have B2: "calls_of (iterations s) s2 = [] \<and> waiting s2 (iterations s) = None"
    if e: "NewRequestWithContext P r [WithOriginalRequest r, WithWorkerName w] = Inr fr"
      and r0: "startExternalWorkerPipe P w t es0 pipe_init = Inr s"
      and r2: "startExternalWorkerPipe P w t (Provides (Some rq) # es) s = Inr s2"
  proof -
    have "run (startExternalWorkerPipe_iteration P w t) es
            (s\<lparr>iterations := Suc (iterations s)\<rparr>) = Inr s2"
      using r2 B[OF e] by (simp add: startExternalWorkerPipe_def)
    from dropped_never_called[OF pipe_body_startExternalWorkerPipe
        r0[unfolded startExternalWorkerPipe_def] B[OF e] _ this]
    show ?thesis by simp
  qed
  show ?thesis
    using A B A2 B2 by (simp add: startWorker_def startExternalWorkerPipe_def)
qed

theorem request_without_context_dropped_silently_witness:
  "Request (sample_request\<lparr>Request := Some ''no-context''\<rparr>) = Some ''no-context'' \<and>
   fromContext sample_frankenphp ''no-context'' = None \<and>
   NewRequestWithContext sample_frankenphp ''no-context'' [WithOriginalRequest ''no-context'']
     = Inr ''no-context'' \<and>
   NewRequestWithContext sample_frankenphp ''no-context''
       [WithOriginalRequest ''no-context'', WithWorkerName ''mockWorker''] = Inr ''no-context'' \<and>
   startWorker sample_frankenphp ''mockWorker'' 3 [] pipe_init = Inr pipe_init \<and>
   startWorker sample_frankenphp ''mockWorker'' 3
       [Provides (Some (sample_request\<lparr>Request := Some ''no-context''\<rparr>))] pipe_init
     = Inr (pipe_init\<lparr>iterations := 1\<rparr>) \<and>
   startExternalWorkerPipe sample_frankenphp ''mockWorker'' 3
       [Provides (Some (sample_request\<lparr>Request := Some ''no-context''\<rparr>))] pipe_init
     = Inr (pipe_init\<lparr>iterations := 1\<rparr>) \<and>
   calls_of 0 (pipe_init\<lparr>iterations := 1\<rparr>) = []"
proof -
  let ?rq = "sample_request\<lparr>Request := Some ''no-context''\<rparr>"
  let ?s2 = "pipe_init\<lparr>iterations := 1\<rparr>"
  have h: "Request ?rq = Some ''no-context''"
    by simp
  have n: "fromContext sample_frankenphp ''no-context'' = None"
    by (simp add: sample_defs)
  have e1: "NewRequestWithContext sample_frankenphp ''no-context''
      [WithOriginalRequest ''no-context''] = Inr ''no-context''"
    by (simp add: sample_defs)
  have e2: "NewRequestWithContext sample_frankenphp ''no-context''
      [WithOriginalRequest ''no-context'', WithWorkerName ''mockWorker''] = Inr ''no-context''"
    by (simp add: sample_defs)
  have r0: "startWorker sample_frankenphp ''mockWorker'' 3 [] pipe_init = Inr pipe_init"
    by (simp add: startWorker_def)
  have i0: "iterations pipe_init = 0"
    by (simp add: pipe_init_def)
  note th = request_without_context_dropped_silently
    [OF h n, of "''mockWorker''" 3 pipe_init "[]" "[]" ?s2]
  have a: "startWorker sample_frankenphp ''mockWorker'' 3 [Provides (Some ?rq)] pipe_init = Inr ?s2"
    using th e1 by (simp add: startWorker_def i0)
  have b: "startExternalWorkerPipe sample_frankenphp ''mockWorker'' 3 [Provides (Some ?rq)] pipe_init
      = Inr ?s2"
    using th e2 by (simp add: startExternalWorkerPipe_def i0)
  have c: "calls_of 0 ?s2 = []"
    using th e1 r0 a unfolding i0 by blast
  from h n e1 e2 r0 a b c show ?thesis
    by blast
qed

section \<open>The default worker's queue\<close>

text \<open>
  C3 (as stated): the default worker built by \<^verbatim>\<open>NewWorker(name, fileName, minThreads, env)\<close>
  has a buffered queue whose capacity is \<^verbatim>\<open>minThreads\<close>. The code makes the channel with
  \<^verbatim>\<open>make(chan *WorkerRequest)\<close>: for \<^verbatim>\<open>minThreads = 1\<close> the capacity is 0, not 1, and the
  first injected request is not buffered: the injecting goroutine blocks.
\<close>

theorem NewWorker_queue_capacity_counterexample:
  "int (cap (requestChan (NewWorker ''mockWorker'' ''testdata/worker.php'' 1 []))) \<noteq>
     GetMinThreads (NewWorker ''mockWorker'' ''testdata/worker.php'' 1 []) \<and>
   fst (InjectRequest None (NewWorker ''mockWorker'' ''testdata/worker.php'' 1 [])) = SendBlocks"
  by (simp add: NewWorker_def GetMinThreads_def make_chan_def InjectRequest_def chan_send_def)

text \<open>
  C3 (amended): the default worker built by \<^verbatim>\<open>NewWorker\<close> uses a single unbuffered
  queue: its capacity is 0 whatever \<^verbatim>\<open>minThreads\<close> is (which is only stored, and read
  back by \<^verbatim>\<open>GetMinThreads\<close>), and nothing is pending in it. \<^verbatim>\<open>InjectRequest\<close> is the send
  and \<^verbatim>\<open>ProvideRequest\<close> the receive: an injection with no receiver waiting blocks until
  \<^verbatim>\<open>ProvideRequest\<close> takes its request, and an injection made while \<^verbatim>\<open>ProvideRequest\<close>
  waits is handed over directly.
\<close>

theorem NewWorker_unbuffered_queue:
  "cap (requestChan (NewWorker n f m e)) = 0 \<and>
   pending (requestChan (NewWorker n f m e)) = [] \<and>
   GetMinThreads (NewWorker n f m e) = m \<and>
   fst (InjectRequest r (NewWorker n f m e)) = SendBlocks \<and>
   fst (ProvideRequest (snd (InjectRequest r (NewWorker n f m e)))) = Received r \<and>
   fst (ProvideRequest (NewWorker n f m e)) = RecvBlocks \<and>
   fst (InjectRequest r (snd (ProvideRequest (NewWorker n f m e)))) = HandedToReceiver"
  by (simp add: NewWorker_def GetMinThreads_def make_chan_def InjectRequest_def chan_send_def
      ProvideRequest_def chan_recv_def pending_def)

text \<open>
  C7: requests leave the default worker's queue in the order they were injected. Take
  any state of the queue and inject \<open>A\<close>, then \<open>B\<close>. If no call of \<^verbatim>\<open>ProvideRequest\<close> is
  waiting, both injections wait, and the next calls of \<^verbatim>\<open>ProvideRequest\<close> return the
  requests that were already pending, then \<open>A\<close>, then \<open>B\<close>. If one call of
  \<^verbatim>\<open>ProvideRequest\<close> is waiting, that call returns \<open>A\<close> and the next call returns \<open>B\<close>. If
  two or more are waiting, the first of them returns \<open>A\<close> and the second returns \<open>B\<close>.
  And whatever calls follow the two injections, the requests returned so far, followed
  by those still pending, are the ones pending before, then \<open>A\<close>, then \<open>B\<close>, then the
  later injections.
\<close>

theorem InjectRequest_fifo:
  assumes "chan_wf (requestChan w)"
  shows "(recvq (requestChan w) = 0 \<longrightarrow>
            fst (queue_calls (Inject A # Inject B #
                   replicate (length (pending (requestChan w)) + 2) Provide) w)
              = pending (requestChan w) @ [A, B]) \<and>
         (recvq (requestChan w) = 1 \<longrightarrow>
            fst (queue_calls [Inject A, Inject B, Provide] w) = [A, B]) \<and>
         (2 \<le> recvq (requestChan w) \<longrightarrow>
            fst (queue_calls [Inject A, Inject B] w) = [A, B]) \<and>
         fst (queue_calls (Inject A # Inject B # cs) w)
           @ pending (requestChan (snd (queue_calls (Inject A # Inject B # cs) w)))
         = pending (requestChan w) @ A # B # injected cs
       \<and> (length (pending (requestChan w)) + 1
            < length (fst (queue_calls (Inject A # Inject B # cs) w)) \<longrightarrow>
          fst (queue_calls (Inject A # Inject B # cs) w) ! length (pending (requestChan w)) = A \<and>
          fst (queue_calls (Inject A # Inject B # cs) w) ! (length (pending (requestChan w)) + 1) = B)"
proof -
  let ?out = "fst (queue_calls (Inject A # Inject B # cs) w)"
  let ?rest = "pending (requestChan (snd (queue_calls (Inject A # Inject B # cs) w)))"
  let ?P = "pending (requestChan w)"
  have eq: "?out @ ?rest = ?P @ A # B # injected cs"
    using queue_calls_fifo[OF assms, of "Inject A # Inject B # cs"] by simp
  have "?out ! length ?P = A \<and> ?out ! (length ?P + 1) = B" if len: "length ?P + 1 < length ?out"
  proof -
    have "?out ! length ?P = (?out @ ?rest) ! length ?P"
      using len by (simp add: nth_append)
    moreover have "?out ! (length ?P + 1) = (?out @ ?rest) ! (length ?P + 1)"
      using len by (simp add: nth_append)
    ultimately show ?thesis unfolding eq by (simp add: nth_append)
  qed
  with eq inject_two_then_provide[OF assms, of A B] inject_two_one_receiver[OF assms, of A B]
    inject_two_two_receivers[OF assms, of A B]
  show ?thesis by blast
qed

theorem InjectRequest_fifo_witness:
  "chan_wf (requestChan (NewWorker ''w'' ''w.php'' 1 [])) \<and>
   recvq (requestChan (NewWorker ''w'' ''w.php'' 1 [])) = 0 \<and>
   fst (queue_calls
         [Inject (Some \<lparr>Request = Some ''A'', Response = None, CallbackParameters = AnyNil,
                   AfterFunc = None\<rparr>),
          Inject (Some \<lparr>Request = Some ''B'', Response = None, CallbackParameters = AnyNil,
                   AfterFunc = None\<rparr>), Provide, Provide]
         (NewWorker ''w'' ''w.php'' 1 []))
     = [Some \<lparr>Request = Some ''A'', Response = None, CallbackParameters = AnyNil,
               AfterFunc = None\<rparr>,
        Some \<lparr>Request = Some ''B'', Response = None, CallbackParameters = AnyNil,
               AfterFunc = None\<rparr>]"
proof -
  have wf: "chan_wf (requestChan (NewWorker ''w'' ''w.php'' 1 []))"
    by (simp add: chan_wf_def NewWorker_def make_chan_def)
  have r0: "recvq (requestChan (NewWorker ''w'' ''w.php'' 1 [])) = 0"
    by (simp add: NewWorker_def make_chan_def)
  have pend: "pending (requestChan (NewWorker ''w'' ''w.php'' 1 [])) = []"
    by (simp add: NewWorker_def make_chan_def pending_def)
  have rep: "replicate (length ([] :: WorkerRequest option list) + 2) Provide = [Provide, Provide]"
    by (simp add: numeral_2_eq_2)
  note fifo = InjectRequest_fifo [OF wf,
        of "Some \<lparr>Request = Some ''A'', Response = None, CallbackParameters = AnyNil,
                   AfterFunc = None\<rparr>"
           "Some \<lparr>Request = Some ''B'', Response = None, CallbackParameters = AnyNil,
                   AfterFunc = None\<rparr>" "[]", THEN conjunct1, THEN mp, OF r0]
  show ?thesis
    using wf r0 fifo unfolding pend rep append_Nil by (intro conjI)
qed

section \<open>Thread lifecycle counters\<close>

text \<open>
  C5: for every thread id \<open>t\<close> and every state of the default worker, the calls
  \<^verbatim>\<open>ThreadActivatedNotification(t)\<close>, \<^verbatim>\<open>ThreadDrainNotification(t)\<close>,
  \<^verbatim>\<open>ThreadDeactivatedNotification(t)\<close>, in this order, leave \<open>activatedCount\<close> and
  \<open>drainCount\<close> at the values they had before (and change nothing else).
\<close>

theorem lifecycle_sequence_net_zero:
  "activatedCount (ThreadDeactivatedNotification t
      (ThreadDrainNotification t (ThreadActivatedNotification t w))) = activatedCount w \<and>
   drainCount (ThreadDeactivatedNotification t
      (ThreadDrainNotification t (ThreadActivatedNotification t w))) = drainCount w \<and>
   ThreadDeactivatedNotification t
      (ThreadDrainNotification t (ThreadActivatedNotification t w)) = w"
  by (simp add: ThreadDeactivatedNotification_def ThreadDrainNotification_def
      ThreadActivatedNotification_def)

text \<open>
  C6: every call of \<^verbatim>\<open>ThreadDeactivatedNotification\<close> takes one off \<open>drainCount\<close> and one
  off \<open>activatedCount\<close>, in the arithmetic of \<^verbatim>\<open>atomic.Int32\<close>: read as signed numbers,
  each counter goes down by exactly one unless it was at the smallest value, -2^31, where
  \<^verbatim>\<open>Add(-1)\<close> wraps around. The adjustment is the same when no
  \<^verbatim>\<open>ThreadDrainNotification\<close> came before as when one did; without one, a worker whose
  \<open>drainCount\<close> was 0 is left with -1.
\<close>

theorem ThreadDeactivatedNotification_decrements_both:
  "drainCount (ThreadDeactivatedNotification t w) = drainCount w - 1 \<and>
   activatedCount (ThreadDeactivatedNotification t w) = activatedCount w - 1 \<and>
   drainCount (ThreadDeactivatedNotification t (ThreadDrainNotification t' w))
     = drainCount (ThreadDrainNotification t' w) - 1 \<and>
   activatedCount (ThreadDeactivatedNotification t (ThreadDrainNotification t' w))
     = activatedCount (ThreadDrainNotification t' w) - 1 \<and>
   (sint (drainCount w) \<noteq> - (2 ^ 31) \<longrightarrow>
      sint (drainCount (ThreadDeactivatedNotification t w)) = sint (drainCount w) - 1) \<and>
   (sint (activatedCount w) \<noteq> - (2 ^ 31) \<longrightarrow>
      sint (activatedCount (ThreadDeactivatedNotification t w)) = sint (activatedCount w) - 1) \<and>
   (drainCount w = 0 \<longrightarrow> sint (drainCount (ThreadDeactivatedNotification t w)) = - 1)"
  using sint_dec [of "drainCount w"] sint_dec [of "activatedCount w"]
  by (simp add: ThreadDeactivatedNotification_def ThreadDrainNotification_def)

theorem ThreadDeactivatedNotification_decrements_both_witness:
  "sint (drainCount (ThreadDrainNotification 7 (NewWorker ''w'' ''w.php'' 1 []))) \<noteq> - (2 ^ 31) \<and>
   sint (activatedCount (ThreadActivatedNotification 7 (NewWorker ''w'' ''w.php'' 1 []))) \<noteq> - (2 ^ 31) \<and>
   drainCount (NewWorker ''w'' ''w.php'' 1 []) = 0 \<and>
   sint (drainCount (ThreadDeactivatedNotification 7
      (ThreadDrainNotification 7 (NewWorker ''w'' ''w.php'' 1 [])))) = 0 \<and>
   sint (activatedCount (ThreadDeactivatedNotification 7
      (ThreadActivatedNotification 7 (NewWorker ''w'' ''w.php'' 1 [])))) = 0 \<and>
   sint (drainCount (ThreadDeactivatedNotification 7 (NewWorker ''w'' ''w.php'' 1 []))) = - 1"
  using ThreadDeactivatedNotification_decrements_both
          [of 7 "ThreadDrainNotification 7 (NewWorker ''w'' ''w.php'' 1 [])" 7]
        ThreadDeactivatedNotification_decrements_both
          [of 7 "ThreadActivatedNotification 7 (NewWorker ''w'' ''w.php'' 1 [])" 7]
        ThreadDeactivatedNotification_decrements_both
          [of 7 "NewWorker ''w'' ''w.php'' 1 []" 7]
  by (simp add: ThreadDrainNotification_def ThreadActivatedNotification_def NewWorker_def)

text \<open>
  C10: what a lifecycle notification does to the default worker does not depend on the
  thread id it is called with. Two sequences of notifications of the same kinds, in the
  same order, with any thread ids, leave the worker in the same state; the counters
  after a sequence are the starting values plus the number of activations
  (\<open>activatedCount\<close>) or drains (\<open>drainCount\<close>) minus the number of deactivations.
\<close>

theorem notifications_ignore_threadId:
  "ThreadActivatedNotification t1 w = ThreadActivatedNotification t2 w \<and>
   ThreadDrainNotification t1 w = ThreadDrainNotification t2 w \<and>
   ThreadDeactivatedNotification t1 w = ThreadDeactivatedNotification t2 w \<and>
   (map kind ns = map kind ns' \<longrightarrow> notify_all ns w = notify_all ns' w) \<and>
   activatedCount (notify_all ns w) =
     activatedCount w + of_nat (count_list (map kind ns) KActivated)
       - of_nat (count_list (map kind ns) KDeactivated) \<and>
   drainCount (notify_all ns w) =
     drainCount w + of_nat (count_list (map kind ns) KDrain)
       - of_nat (count_list (map kind ns) KDeactivated)"
  using notify_all_kinds [of ns ns' w] notify_all_activatedCount [of ns w]
    notify_all_drainCount [of ns w]
  by (simp add: ThreadActivatedNotification_def ThreadDrainNotification_def
      ThreadDeactivatedNotification_def)

theorem notifications_ignore_threadId_witness:
  "map kind [Activated 1, Drain 1, Activated 2, Deactivated 1]
     = map kind [Activated 5, Drain 9, Activated 5, Deactivated 3] \<and>
   notify_all [Activated 1, Drain 1, Activated 2, Deactivated 1] (NewWorker ''w'' ''w.php'' 1 [])
     = notify_all [Activated 5, Drain 9, Activated 5, Deactivated 3] (NewWorker ''w'' ''w.php'' 1 []) \<and>
   activatedCount (notify_all [Activated 1, Drain 1, Activated 2, Deactivated 1]
      (NewWorker ''w'' ''w.php'' 1 [])) = 1"
  using notifications_ignore_threadId
          [of 0 "NewWorker ''w'' ''w.php'' 1 []" 0
              "[Activated 1, Drain 1, Activated 2, Deactivated 1]"
              "[Activated 5, Drain 9, Activated 5, Deactivated 3]"]
  by (simp add: NewWorker_def ThreadActivatedNotification_def ThreadDrainNotification_def
      ThreadDeactivatedNotification_def)

section \<open>The registry\<close>

text \<open>
  C8: when two workers \<open>h1\<close> and \<open>h2\<close> have the same name, registering \<open>h1\<close> and then
  \<open>h2\<close> leaves the registry mapping that name to \<open>h2\<close>, exactly as if \<open>h1\<close> had never
  been registered, and no failure is reported (registration returns nothing but the
  registry); registering a worker a second time changes nothing. This holds for
  \<^verbatim>\<open>RegisterWorker\<close> and for \<^verbatim>\<open>RegisterExternalWorker\<close>.
\<close>

theorem Register_last_writer_wins:
  assumes "Name h1 = Name h2"
  shows "RegisterWorker h2 (RegisterWorker h1 m) (Name h1) = Some h2 \<and>
         RegisterWorker h2 (RegisterWorker h1 m) = RegisterWorker h2 m \<and>
         RegisterWorker h2 (RegisterWorker h2 m) = RegisterWorker h2 m \<and>
         RegisterExternalWorker h2 (RegisterExternalWorker h1 m) (Name h1) = Some h2 \<and>
         RegisterExternalWorker h2 (RegisterExternalWorker h1 m) = RegisterExternalWorker h2 m \<and>
         RegisterExternalWorker h2 (RegisterExternalWorker h2 m) = RegisterExternalWorker h2 m"
  using assms by (simp add: RegisterWorker_def RegisterExternalWorker_def)

theorem Register_last_writer_wins_witness:
  "Name (NewWorker ''mockWorker'' ''a.php'' 1 []) = Name (NewWorker ''mockWorker'' ''b.php'' 2 []) \<and>
   RegisterWorker (NewWorker ''mockWorker'' ''b.php'' 2 [])
     (RegisterWorker (NewWorker ''mockWorker'' ''a.php'' 1 []) Map.empty)
     (Name (NewWorker ''mockWorker'' ''a.php'' 1 []))
     = Some (NewWorker ''mockWorker'' ''b.php'' 2 [])"
proof -
  have n: "Name (NewWorker ''mockWorker'' ''a.php'' 1 []) = Name (NewWorker ''mockWorker'' ''b.php'' 2 [])"
    by (simp add: Name_def NewWorker_def)
  show ?thesis
    using n Register_last_writer_wins [OF n, of Map.empty, THEN conjunct1] by (rule conjI)
qed

end
